(* ===== verification/Rust_Prelude.thy ===== *)
theory Rust_Prelude
  imports
    Complex_Main
    "HOL-Library.Word"
    "HOL-Library.Multiset"
    "HOL-Library.Option_ord"
begin

text \<open>
  Shared vocabulary of the development: how the Rust constructs that the sources
  use are written in HOL.

  \<^item> Machine integers. \<open>u8\<close>, \<open>u64\<close> and \<open>usize\<close> are words (the target is 64-bit).
    Rust's \<open>+\<close> and \<open>-\<close> panic on overflow when the crate is built with overflow
    checks (the debug profile) and wrap otherwise (the release profile); both
    behaviours are kept, selected by the flag \<open>oc\<close> of \<open>add_oc\<close> and \<open>sub_oc\<close>.
    \<open>%\<close> panics on a zero divisor in every profile (\<open>rem_chk\<close>).
  \<^item> Panics. A function that can panic returns \<open>'a result = panic + 'a\<close>; \<open>Inl\<close> carries
    the reason. \<open>and_then\<close> sequences two such computations.
    A function that can also loop forever returns \<open>'a exec = (panic + 'a) option\<close>,
    where \<open>None\<close> means that it does not return.
  \<^item> \<open>Vec\<close>. A vector is a list whose last element is the top: \<open>push\<close> appends,
    \<open>vec_pop\<close> removes the last element, \<open>vec_get\<close> is checked indexing.
    Lengths and indices are \<open>nat\<close>: they are bounded by the memory of the
    machine and never reach the wrap-around.
  \<^item> Floating point. \<open>fp\<close> is a real number or one of the special values that a
    division can produce. Rounding is not modelled.
  \<^item> Ranges, bits and formats. \<open>range_u64\<close> lists a range of addresses,
    \<open>count_zeros\<close> counts the zero bits of a word, \<open>fmt_08x\<close> is the format
    \<open>{:08x}\<close>; \<open>of_hex\<close> reads it back.
\<close>

unbundle bit_operations_syntax

named_theorems rust_simps \<open>evaluation rules of the Rust primitives\<close>

subsection \<open>Integers, panics and results\<close>

type_synonym u8 = "8 word"
type_synonym u64 = "64 word"
type_synonym usize = "64 word"

datatype panic =
    ArithmeticOverflow
  | RemainderByZero
  | IndexOutOfBounds
  | UnwrapNone
  | ExpectFailed
  | AssertionFailed
  | NotCharBoundary
  | ChannelFailure
  | Unimplemented

type_synonym 'a result = "panic + 'a"
type_synonym 'a exec = "(panic + 'a) option"

definition and_then :: "'a result \<Rightarrow> ('a \<Rightarrow> 'b result) \<Rightarrow> 'b result" where
  "and_then m f = (case m of Inl p \<Rightarrow> Inl p | Inr x \<Rightarrow> f x)"

definition add_oc :: "bool \<Rightarrow> 'a::len word \<Rightarrow> 'a word \<Rightarrow> 'a word result" where
  "add_oc oc a b =
     (if oc \<and> 2 ^ LENGTH('a) \<le> unat a + unat b then Inl ArithmeticOverflow
      else Inr (a + b))"

definition sub_oc :: "bool \<Rightarrow> 'a::len word \<Rightarrow> 'a word \<Rightarrow> 'a word result" where
  "sub_oc oc a b = (if oc \<and> a < b then Inl ArithmeticOverflow else Inr (a - b))"

definition rem_chk :: "'a::len word \<Rightarrow> 'a word \<Rightarrow> 'a word result" where
  "rem_chk a b = (if b = 0 then Inl RemainderByZero else Inr (a mod b))"

subsection \<open>Vectors\<close>

definition vec_pop :: "'a list \<Rightarrow> ('a \<times> 'a list) option" where
  "vec_pop v = (if v = [] then None else Some (last v, butlast v))"

definition vec_get :: "'a list \<Rightarrow> nat \<Rightarrow> 'a result" where
  "vec_get v i = (if i < length v then Inr (v ! i) else Inl IndexOutOfBounds)"

definition vec_set :: "'a list \<Rightarrow> nat \<Rightarrow> 'a \<Rightarrow> 'a list result" where
  "vec_set v i x = (if i < length v then Inr (v[i := x]) else Inl IndexOutOfBounds)"

subsection \<open>Floating point values\<close>

datatype fp = Fin real | PosInf | NegInf | NaN

definition fp_of_nat :: "nat \<Rightarrow> fp" where
  "fp_of_nat n = Fin (real n)"

fun fp_div :: "fp \<Rightarrow> fp \<Rightarrow> fp" where
  "fp_div (Fin a) (Fin b) =
     (if b \<noteq> 0 then Fin (a / b)
      else if a = 0 then NaN else if 0 < a then PosInf else NegInf)"
| "fp_div (Fin a) PosInf = Fin 0"
| "fp_div (Fin a) NegInf = Fin 0"
| "fp_div PosInf (Fin b) = (if 0 \<le> b then PosInf else NegInf)"
| "fp_div NegInf (Fin b) = (if 0 \<le> b then NegInf else PosInf)"
| "fp_div _ _ = NaN"

fun fp_in_unit :: "fp \<Rightarrow> bool" where
  "fp_in_unit (Fin x) = (0 \<le> x \<and> x \<le> 1)"
| "fp_in_unit _ = False"

text \<open>
  Addition, negation, subtraction and the comparison \<open><\<close>. A NaN operand gives NaN,
  the sum of the two infinities is NaN, and no comparison with NaN holds.
\<close>

fun fp_add :: "fp \<Rightarrow> fp \<Rightarrow> fp" where
  "fp_add (Fin a) (Fin b) = Fin (a + b)"
| "fp_add NaN _ = NaN"
| "fp_add _ NaN = NaN"
| "fp_add PosInf NegInf = NaN"
| "fp_add NegInf PosInf = NaN"
| "fp_add PosInf _ = PosInf"
| "fp_add NegInf _ = NegInf"
| "fp_add (Fin a) PosInf = PosInf"
| "fp_add (Fin a) NegInf = NegInf"

fun fp_neg :: "fp \<Rightarrow> fp" where
  "fp_neg (Fin a) = Fin (- a)"
| "fp_neg PosInf = NegInf"
| "fp_neg NegInf = PosInf"
| "fp_neg NaN = NaN"

definition fp_sub :: "fp \<Rightarrow> fp \<Rightarrow> fp" where
  "fp_sub a b = fp_add a (fp_neg b)"

fun fp_less :: "fp \<Rightarrow> fp \<Rightarrow> bool" where
  "fp_less (Fin a) (Fin b) = (a < b)"
| "fp_less NaN _ = False"
| "fp_less _ NaN = False"
| "fp_less NegInf NegInf = False"
| "fp_less NegInf _ = True"
| "fp_less PosInf _ = False"
| "fp_less (Fin a) PosInf = True"
| "fp_less (Fin a) NegInf = False"

subsection \<open>Ranges and bits of \<open>u64\<close>\<close>

text \<open>
  The values of the range \<open>a..e\<close> in ascending order: none if \<open>e \<le> a\<close>. The
  number of zero bits of a word, \<open>count_zeros\<close>.
\<close>

definition range_u64 :: "u64 \<Rightarrow> u64 \<Rightarrow> u64 list" where
  "range_u64 a e = map (\<lambda>i. a + of_nat i) [0..<unat e - unat a]"

definition count_zeros :: "u64 \<Rightarrow> nat" where
  "count_zeros w = length (filter (\<lambda>i. \<not> bit w i) [0..<64])"

subsection \<open>Sums of \<open>usize\<close> values held as natural numbers\<close>

definition sum_usize :: "bool \<Rightarrow> nat list \<Rightarrow> nat result" where
  "sum_usize oc xs =
     (if sum_list xs < 2 ^ 64 then Inr (sum_list xs)
      else if oc then Inl ArithmeticOverflow else Inr (sum_list xs mod 2 ^ 64))"

subsection \<open>Strings\<close>

text \<open>
  A \<open>String\<close> is the list of its UTF-8 bytes. An index is a character boundary if
  it is 0, the length, or the index of a byte that is not a continuation byte
  (\<open>0x80\<close> to \<open>0xBF\<close>); \<open>split_at\<close> panics at any other index.
\<close>

definition is_continuation :: "char \<Rightarrow> bool" where
  "is_continuation c \<longleftrightarrow> 128 \<le> (of_char c :: nat) \<and> (of_char c :: nat) < 192"

definition is_char_boundary :: "string \<Rightarrow> nat \<Rightarrow> bool" where
  "is_char_boundary s i =
     (if i = 0 then True
      else if i < length s then \<not> is_continuation (s ! i)
      else i = length s)"

definition split_at :: "string \<Rightarrow> nat \<Rightarrow> (string \<times> string) result" where
  "split_at s mid =
     (if is_char_boundary s mid then Inr (take mid s, drop mid s) else Inl NotCharBoundary)"

definition is_ascii :: "string \<Rightarrow> bool" where
  "is_ascii s \<longleftrightarrow> list_all (\<lambda>c. (of_char c :: nat) < 128) s"

subsection \<open>Formatting in hexadecimal\<close>

text \<open>
  The format \<open>{:08x}\<close>: the digits of the number in base 16, lower case, padded
  with zeros on the left to eight digits at least. \<open>of_hex\<close> reads such a string.
\<close>

definition hex_digit :: "nat \<Rightarrow> char" where
  "hex_digit d = (if d < 10 then char_of (48 + d) else char_of (87 + d))"

function to_hex :: "nat \<Rightarrow> string" where
  "to_hex n = (if n < 16 then [hex_digit n] else to_hex (n div 16) @ [hex_digit (n mod 16)])"
  by pat_completeness auto
termination by (relation "measure id") auto

declare to_hex.simps [simp del]

definition fmt_08x :: "u64 \<Rightarrow> string" where
  "fmt_08x w = (let s = to_hex (unat w) in replicate (8 - length s) CHR ''0'' @ s)"

definition hex_digit_value :: "char \<Rightarrow> nat" where
  "hex_digit_value c = (let k = of_char c :: nat in if k < 58 then k - 48 else k - 87)"

definition of_hex :: "string \<Rightarrow> nat" where
  "of_hex s = foldl (\<lambda>a c. 16 * a + hex_digit_value c) 0 s"

text \<open>
  The \<open>Display\<close> format of an unsigned integer, in base 10; \<open>of_dec\<close> reads it.
\<close>

function to_dec :: "nat \<Rightarrow> string" where
  "to_dec n = (if n < 10 then [char_of (48 + n)] else to_dec (n div 10) @ [char_of (48 + n mod 10)])"
  by pat_completeness auto
termination by (relation "measure id") auto

declare to_dec.simps [simp del]

definition of_dec :: "string \<Rightarrow> nat" where
  "of_dec s = foldl (\<lambda>a c. 10 * a + (of_char c - 48)) 0 s"

subsection \<open>Lemmas on results\<close>

lemma and_then_Inl [simp]: "and_then (Inl p) f = Inl p"
  by (simp add: and_then_def)

lemma and_then_Inr [simp]: "and_then (Inr x) f = f x"
  by (simp add: and_then_def)

lemma and_then_eq_Inr_iff:
  "and_then m f = Inr y \<longleftrightarrow> (\<exists>x. m = Inr x \<and> f x = Inr y)"
  by (cases m) simp_all

lemma and_then_eq_Inl_iff:
  "and_then m f = Inl p \<longleftrightarrow> m = Inl p \<or> (\<exists>x. m = Inr x \<and> f x = Inl p)"
  by (cases m) simp_all

lemma and_then_assoc:
  "and_then (and_then m f) g = and_then m (\<lambda>x. and_then (f x) g)"
  by (cases m) simp_all

subsection \<open>Lemmas on checked arithmetic\<close>

lemma add_oc_wraps [rust_simps]: "add_oc False a b = Inr (a + b)"
  by (simp add: add_oc_def)

lemma add_oc_in_range:
  fixes a b :: "'a::len word"
  assumes "unat a + unat b < 2 ^ LENGTH('a)"
  shows "add_oc oc a b = Inr (a + b)" and "unat (a + b) = unat a + unat b"
  using assms by (simp_all add: add_oc_def unat_add_lem [THEN iffD1])

lemma add_oc_overflow:
  fixes a b :: "'a::len word"
  assumes "2 ^ LENGTH('a) \<le> unat a + unat b"
  shows "add_oc True a b = Inl ArithmeticOverflow"
  using assms by (simp add: add_oc_def)

lemma sub_oc_wraps [rust_simps]: "sub_oc False a b = Inr (a - b)"
  by (simp add: sub_oc_def)

lemma sub_oc_in_range:
  assumes "b \<le> a"
  shows "sub_oc oc a b = Inr (a - b)" and "unat (a - b) = unat a - unat b"
  using assms by (simp_all add: sub_oc_def unat_sub not_less)

lemma sub_oc_underflow: "a < b \<Longrightarrow> sub_oc True a b = Inl ArithmeticOverflow"
  by (simp add: sub_oc_def)

lemma unat_less_u64: "unat (w :: 64 word) < 18446744073709551616"
  using unsigned_less [of w, where 'a = nat] by simp

lemma unat_of_nat_u64: "i < 2 ^ 64 \<Longrightarrow> unat (of_nat i :: 64 word) = i"
  by (simp add: unat_of_nat)

lemma unat_add_1_less: "x \<noteq> - 1 \<Longrightarrow> unat (x :: 64 word) + 1 < 2 ^ 64"
proof (rule ccontr)
  assume x: "x \<noteq> - 1" and "\<not> unat x + 1 < 2 ^ 64"
  with unat_less_u64 [of x] have "unat x = 18446744073709551615" by simp
  then have "of_nat (unat x) = (of_nat 18446744073709551615 :: 64 word)" by (rule arg_cong)
  then have "x = - 1" by simp
  with x show False by simp
qed

lemma add_oc_one: "oc \<longrightarrow> x \<noteq> - 1 \<Longrightarrow> add_oc oc (x :: usize) 1 = Inr (x + 1)"
  using unat_add_1_less [of x] by (auto simp: add_oc_def)

lemma sub_add_oc_in_range:
  fixes n t :: usize
  assumes "unat n + 2 \<le> unat t"
  shows "and_then (add_oc oc n 2) (sub_oc oc t) = Inr (t - (n + 2))"
    and "unat (t - (n + 2)) = unat t - unat n - 2"
proof -
  have "unat n + unat (2 :: usize) < 2 ^ LENGTH(64)"
    using assms unat_less_u64 [of t] by simp
  from add_oc_in_range [OF this] have a: "add_oc oc n 2 = Inr (n + 2)" "unat (n + 2) = unat n + 2"
    by simp_all
  with assms have le: "n + 2 \<le> t" by (simp add: word_le_nat_alt)
  from sub_oc_in_range [OF le] a show "and_then (add_oc oc n 2) (sub_oc oc t) = Inr (t - (n + 2))"
    and "unat (t - (n + 2)) = unat t - unat n - 2" by simp_all
qed

lemma rem_chk_zero [simp]: "rem_chk a 0 = Inl RemainderByZero"
  by (simp add: rem_chk_def)

lemma rem_chk_pos: "b \<noteq> 0 \<Longrightarrow> rem_chk a b = Inr (a mod b)"
  by (simp add: rem_chk_def)

lemma unat_rem_less: "b \<noteq> 0 \<Longrightarrow> unat (a mod b) < unat b"
  by (simp add: unat_mod unat_gt_0)

subsection \<open>Lemmas on vectors\<close>

lemma replicate_numeral [rust_simps]:
  "replicate (numeral k) x = x # replicate (pred_numeral k) x"
  by (simp only: numeral_eq_Suc replicate.simps)

lemma list_update_Cons_numeral [rust_simps]:
  "(x # xs)[numeral k := y] = x # xs[pred_numeral k := y]"
  by (simp only: numeral_eq_Suc list_update.simps nat.case)

lemma take_append_butlast:
  "n \<le> length r \<Longrightarrow> ys \<noteq> [] \<Longrightarrow> take n (ys @ butlast r) = take n (ys @ r)"
proof (cases "r = []")
  case True
  then show ?thesis by simp
next
  case False
  assume "n \<le> length r" "ys \<noteq> []"
  then have "n \<le> length (ys @ butlast r)"
    using False by (cases ys) simp_all
  then have "take n ((ys @ butlast r) @ [last r]) = take n (ys @ butlast r)"
    by (simp del: append_assoc)
  with False show ?thesis by simp
qed

lemma ring_insert_recent:
  assumes "i < length fr"
  shows "rev (take (Suc (Suc i mod length fr)) (fr[Suc i mod length fr := v]))
           @ rev (drop (Suc (Suc i mod length fr)) (fr[Suc i mod length fr := v]))
         = v # butlast (rev (take (Suc i) fr) @ rev (drop (Suc i) fr))"
proof (cases "Suc i < length fr")
  case True
  then have j: "Suc i mod length fr = Suc i" by simp
  have "take (Suc (Suc i)) (fr[Suc i := v]) = take (Suc i) fr @ [v]"
    using True by (simp add: take_Suc_conv_app_nth)
  moreover have "drop (Suc (Suc i)) (fr[Suc i := v]) = drop (Suc (Suc i)) fr"
    by simp
  moreover have "drop (Suc i) fr = fr ! Suc i # drop (Suc (Suc i)) fr"
    using True by (simp add: Cons_nth_drop_Suc)
  ultimately show ?thesis
    by (simp add: j butlast_append)
next
  case False
  with assms have n: "Suc i = length fr" by simp
  then obtain a fr' where fr: "fr = a # fr'" by (cases fr) auto
  from n show ?thesis by (simp add: fr)
qed

lemma vec_pop_Nil [simp]: "vec_pop [] = None"
  by (simp add: vec_pop_def)

lemma vec_pop_snoc [simp]: "vec_pop (v @ [x]) = Some (x, v)"
  by (simp add: vec_pop_def)

lemma vec_pop_eq_None_iff [simp]: "vec_pop v = None \<longleftrightarrow> v = []"
  by (simp add: vec_pop_def)

lemma vec_pop_eq_Some_iff: "vec_pop v = Some (x, v') \<longleftrightarrow> v = v' @ [x]"
  by (cases v rule: rev_cases) auto

lemma vec_pop_short:
  assumes "length ps < 2"
  obtains "vec_pop ps = None" | x where "vec_pop ps = Some (x, [])"
  using assms by (cases ps rule: rev_cases) auto

lemma take_two_split:
  assumes "Suc (Suc n) \<le> length r"
  shows "take 2 (take (Suc (Suc n)) r) = [r ! 0, r ! 1]"
    and "rev (drop 2 (take (Suc (Suc n)) r)) @ [r ! 1, r ! 0] = rev (take (Suc (Suc n)) r)"
proof -
  from assms obtain a b rest where r: "r = a # b # rest"
    by (cases r; cases "tl r") auto
  then show "take 2 (take (Suc (Suc n)) r) = [r ! 0, r ! 1]"
    and "rev (drop 2 (take (Suc (Suc n)) r)) @ [r ! 1, r ! 0] = rev (take (Suc (Suc n)) r)"
    by simp_all
qed

lemma vec_get_in_range [simp]: "i < length v \<Longrightarrow> vec_get v i = Inr (v ! i)"
  by (simp add: vec_get_def)

lemma vec_get_out_of_range [simp]: "length v \<le> i \<Longrightarrow> vec_get v i = Inl IndexOutOfBounds"
  by (simp add: vec_get_def)

lemma vec_set_in_range [simp]: "i < length v \<Longrightarrow> vec_set v i x = Inr (v[i := x])"
  by (simp add: vec_set_def)

lemma vec_set_out_of_range [simp]: "length v \<le> i \<Longrightarrow> vec_set v i x = Inl IndexOutOfBounds"
  by (simp add: vec_set_def)

subsection \<open>Lemmas on floating point values\<close>

lemma fp_div_of_nat:
  "fp_div (fp_of_nat a) (fp_of_nat b) =
     (if b \<noteq> 0 then Fin (real a / real b) else if a = 0 then NaN else PosInf)"
  by (simp add: fp_of_nat_def)

lemma fp_div_of_nat_in_unit:
  "0 < b \<Longrightarrow> a \<le> b \<Longrightarrow> fp_in_unit (fp_div (fp_of_nat a) (fp_of_nat b))"
  by (simp add: fp_div_of_nat)

subsection \<open>Lemmas on strings\<close>

lemma is_char_boundary_ascii:
  "is_ascii s \<Longrightarrow> i \<le> length s \<Longrightarrow> is_char_boundary s i"
  by (auto simp: is_char_boundary_def is_ascii_def is_continuation_def list_all_length)

lemma split_at_ascii:
  "is_ascii s \<Longrightarrow> i \<le> length s \<Longrightarrow> split_at s i = Inr (take i s, drop i s)"
  by (simp add: split_at_def is_char_boundary_ascii)

lemma split_at_beyond: "length s < i \<Longrightarrow> split_at s i = Inl NotCharBoundary"
  by (simp add: split_at_def is_char_boundary_def)

lemma split_at_Inr:
  "split_at s i = Inr (a, b) \<Longrightarrow> a @ b = s \<and> length a = i \<and> i \<le> length s"
  by (auto simp: split_at_def is_char_boundary_def split: if_splits)

lemma is_ascii_append [simp]: "is_ascii (a @ b) \<longleftrightarrow> is_ascii a \<and> is_ascii b"
  by (simp add: is_ascii_def)

lemma is_ascii_take: "is_ascii s \<Longrightarrow> is_ascii (take n s)"
  by (metis append_take_drop_id is_ascii_append)

lemma is_ascii_drop: "is_ascii s \<Longrightarrow> is_ascii (drop n s)"
  by (metis append_take_drop_id is_ascii_append)

lemma is_ascii_update:
  "is_ascii s \<Longrightarrow> (of_char c :: nat) < 128 \<Longrightarrow> is_ascii (s[i := c])"
  by (auto simp: is_ascii_def list_all_iff dest: set_update_subset_insert [THEN subsetD])

subsection \<open>Lemmas on floating point sums and differences\<close>

lemma fp_add_of_nat [simp]: "fp_add (fp_of_nat a) (fp_of_nat b) = fp_of_nat (a + b)"
  by (simp add: fp_of_nat_def)

lemma fp_add_Fin_0 [simp]: "fp_add (Fin 0) (fp_of_nat b) = fp_of_nat b"
  by (simp add: fp_of_nat_def)

lemma fp_sub_Fin [simp]: "fp_sub (Fin a) (Fin b) = Fin (a - b)"
  by (simp add: fp_sub_def)

lemma fp_sub_NaN [simp]: "fp_sub a NaN = NaN" "fp_sub NaN b = NaN"
  by (cases a; simp add: fp_sub_def)+

lemma fp_sub_Inf [simp]: "fp_sub (Fin a) PosInf = NegInf" "fp_sub (Fin a) NegInf = PosInf"
  by (simp_all add: fp_sub_def)

lemma fp_less_of_nat_1 [simp]: "fp_less (fp_of_nat n) (Fin 1) \<longleftrightarrow> n = 0"
  by (simp add: fp_of_nat_def)

lemma fp_in_unit_complement:
  "fp_in_unit r \<Longrightarrow> fp_in_unit (fp_sub (Fin 1) r)"
  by (cases r) simp_all

subsection \<open>Lemmas on ranges and bits\<close>

lemma length_range_u64 [simp]: "length (range_u64 a e) = unat e - unat a"
  by (simp add: range_u64_def)

lemma range_u64_empty [simp]: "e \<le> a \<Longrightarrow> range_u64 a e = []"
  by (simp add: range_u64_def word_le_nat_alt)

lemma set_range_u64: "set (range_u64 a e) = {a..<e}"
proof (intro set_eqI iffI)
  fix x assume "x \<in> set (range_u64 a e)"
  then obtain i where i: "i < unat e - unat a" and x: "x = a + of_nat i"
    by (auto simp: range_u64_def)
  from i unat_less_u64 [of e] have "unat a + i < 2 ^ 64" by simp
  then have "unat (a + of_nat i) = unat a + i"
    by (simp add: unat_word_ariths unat_of_nat)
  with i x show "x \<in> {a..<e}"
    by (simp add: word_le_nat_alt word_less_nat_alt)
next
  fix x assume "x \<in> {a..<e}"
  then have le: "unat a \<le> unat x" and lt: "unat x < unat e"
    by (simp_all add: word_le_nat_alt word_less_nat_alt)
  then have "x = a + of_nat (unat x - unat a)"
    by (simp add: word_le_nat_alt [symmetric] of_nat_diff)
  moreover from le lt have "unat x - unat a < unat e - unat a" by simp
  ultimately show "x \<in> set (range_u64 a e)"
    by (auto simp: range_u64_def)
qed

lemma distinct_range_u64 [simp]: "distinct (range_u64 a e)"
proof -
  have "inj_on (\<lambda>i. a + (of_nat i :: u64)) {0..<unat e - unat a}"
  proof (rule inj_onI)
    fix i j assume "i \<in> {0..<unat e - unat a}" "j \<in> {0..<unat e - unat a}"
      and "a + (of_nat i :: u64) = a + of_nat j"
    then have "(of_nat i :: u64) = of_nat j" "i < 2 ^ 64" "j < 2 ^ 64"
      using unat_less_u64 [of e] by simp_all
    then show "i = j"
      by (metis unat_of_nat_u64)
  qed
  then show ?thesis
    by (simp add: range_u64_def distinct_map)
qed

lemma count_zeros_le: "count_zeros w \<le> 64"
  unfolding count_zeros_def by (rule order_trans [OF length_filter_le]) simp

lemma count_zeros_card: "count_zeros w = card {i. i < 64 \<and> \<not> bit w i}"
proof -
  have "{i. i < 64 \<and> \<not> bit w i} = set (filter (\<lambda>i. \<not> bit w i) [0..<64])" by auto
  moreover have "distinct (filter (\<lambda>i. \<not> bit w i) [0..<64])" by simp
  ultimately show ?thesis
    unfolding count_zeros_def by (simp only: distinct_card)
qed

lemma unat_range_nth:
  fixes a e :: u64
  shows "i < unat e - unat a \<Longrightarrow> unat (a + of_nat i) = unat a + i"
proof -
  assume "i < unat e - unat a"
  with unat_less_u64 [of e] have "unat a + i < 2 ^ 64" by simp
  then show ?thesis by (simp add: unat_word_ariths unat_of_nat)
qed

lemma sorted_range_u64 [simp]: "sorted (range_u64 a e)"
proof -
  have "a + of_nat i \<le> a + of_nat j" if "i \<le> j" "j < unat e - unat a" for i j
    using that unat_range_nth [of i e a] unat_range_nth [of j e a]
    by (simp add: word_le_nat_alt)
  then show ?thesis
    by (simp add: range_u64_def sorted_iff_nth_mono)
qed

lemma sorted_list_of_set_range_u64: "sorted_list_of_set {a..<e} = range_u64 a e"
  using sorted_list_of_set.idem_if_sorted_distinct [of "range_u64 a e"]
  by (simp add: set_range_u64)

lemma card_range_u64: "card {a..<e :: u64} = unat e - unat a"
  using distinct_card [OF distinct_range_u64, of a e] by (simp add: set_range_u64)

text \<open>The range unfolds from its first element; this evaluates ranges of numerals.\<close>

lemma range_u64_rec: "range_u64 a e = (if a < e then a # range_u64 (a + 1) e else [])"
proof (cases "a < e")
  case True
  then have lt: "unat a < unat e" by (simp add: word_less_nat_alt)
  with unat_less_u64 [of e] have "unat a + 1 < 2 ^ 64" by simp
  then have "unat (a + 1) = Suc (unat a)" by (simp add: unat_word_ariths)
  with lt have n: "unat e - unat a = Suc (unat e - unat (a + 1))" by simp
  have "map (\<lambda>i. a + of_nat i) [0..<Suc n] = a # map (\<lambda>i. a + 1 + of_nat i) [0..<n]" for n
    by (simp add: upt_conv_Cons map_Suc_upt [symmetric] del: upt_Suc)
  with True show ?thesis
    unfolding range_u64_def n by simp
next
  case False
  then show ?thesis by (simp add: not_less)
qed

subsection \<open>Folds, enumerations and minima\<close>

lemma fold_insert_set: "fold insert xs s = set xs \<union> s"
  by (induction xs arbitrary: s) auto

lemma map_enumerate_twice:
  "map f (enumerate n (map g (enumerate n xs))) = map (\<lambda>(i, x). f (i, g (i, x))) (enumerate n xs)"
  by (rule nth_equalityI) (simp_all add: nth_enumerate_eq)

lemma list_update_Suc_commute:
  "(row[a := Suc (row ! a)])[b := Suc (row[a := Suc (row ! a)] ! b)] =
   (row[b := Suc (row ! b)])[a := Suc (row[b := Suc (row ! b)] ! a)]"
  for row :: "nat list"
  by (cases "a = b") (simp_all add: list_update_swap)

lemma mset_sorted_list_of_set [simp]:
  "finite S \<Longrightarrow> mset (sorted_list_of_set S) = mset_set S"
  using mset_set_set [of "sorted_list_of_set S"] by simp

lemma Min_image_mono:
  fixes f g :: "'a \<Rightarrow> nat"
  assumes "finite A" and "A \<noteq> {}" and "\<And>i. i \<in> A \<Longrightarrow> f i \<le> g i"
  shows "Min (f ` A) \<le> Min (g ` A)"
proof (rule Min.boundedI)
  fix b assume "b \<in> g ` A"
  then obtain i where i: "i \<in> A" "b = g i" by blast
  with assms(1) have "Min (f ` A) \<le> f i" by (intro Min_le) auto
  with assms(3) [OF i(1)] i(2) show "Min (f ` A) \<le> b" by simp
qed (use assms in auto)

lemma Min_image_Suc:
  fixes f :: "'a \<Rightarrow> nat"
  assumes "finite A" and "A \<noteq> {}"
  shows "Min ((\<lambda>i. Suc (f i)) ` A) = Suc (Min (f ` A))"
proof -
  have "Suc (Min (f ` A)) = Min (Suc ` f ` A)"
    using assms by (intro mono_Min_commute) (auto simp: mono_def)
  then show ?thesis by (simp add: image_image)
qed

subsection \<open>Hexadecimal formatting can be read back\<close>

lemma hex_digit_value [simp]: "d < 16 \<Longrightarrow> hex_digit_value (hex_digit d) = d"
  by (simp add: hex_digit_def hex_digit_value_def)

lemma of_hex_append [simp]: "of_hex (s @ [c]) = 16 * of_hex s + hex_digit_value c"
  by (simp add: of_hex_def)

lemma of_hex_to_hex [simp]: "of_hex (to_hex n) = n"
proof (induction n rule: to_hex.induct)
  case (1 n)
  then show ?case
    by (subst to_hex.simps) (simp add: of_hex_def [of "[_]"])
qed

lemma of_hex_zeros [simp]: "of_hex (replicate k CHR ''0'' @ s) = of_hex s"
  by (induction k) (simp_all add: of_hex_def hex_digit_value_def)

lemma of_hex_fmt_08x [simp]: "of_hex (fmt_08x w) = unat w"
  by (simp add: fmt_08x_def Let_def)

lemma length_fmt_08x: "8 \<le> length (fmt_08x w)"
  by (simp add: fmt_08x_def Let_def)

lemma of_dec_to_dec [simp]: "of_dec (to_dec n) = n"
proof (induction n rule: to_dec.induct)
  case (1 n)
  then show ?case
    by (subst to_dec.simps) (simp add: of_dec_def)
qed

lemmas fmt_eval = fmt_08x_def to_hex.simps hex_digit_def replicate_numeral char_of_def
  bit_Suc_0_iff

end
