(* ===== verification/Profiler.thy ===== *)
theory Profiler
  imports Rust_Prelude
begin

text \<open>
  The execution profiler, \<open>src/emulator/profiler.rs\<close>.

  A \<open>profiler\<close> is the log of one emulation run. Its three \<open>SegQueue\<close>s are lists
  whose head is the front of the queue: the emulation callbacks push at the back
  (\<open>record_block\<close>, \<open>record_gadget\<close>, \<open>record_write\<close>) and the conversion to a
  \<open>profile\<close> pops from the front until the queue is empty. A \<open>profile\<close> holds one
  entry per run in each of its vectors. \<open>'r\<close> is the register type of the
  architecture (\<open>Register<C>\<close>) and \<open>'s\<close> the memory segment type (\<open>Seg\<close>).

  The theory proves that \<open>absorb\<close> is associative with \<open>collate []\<close> as its unit,
  that \<open>collate\<close> is the fold of \<open>absorb\<close> over the single-run profiles, that the
  vectors of a profile stay aligned run by run, and the closed forms of the
  analytics (\<open>was_this_executed\<close>, \<open>was_this_written\<close>, \<open>addresses_written_to\<close>,
  \<open>mem_write_ratio\<close>, \<open>avg_emulation_micros\<close>) with their panics and bounds, and
  when the code, the disassembly and the format of a block panic.
\<close>

subsection \<open>Data\<close>

text \<open>A unicorn error is its error code; a \<open>Duration\<close> is a number of nanoseconds.\<close>

type_synonym uc_error = nat
type_synonym duration = nat

record block =
  entry :: u64
  block_size :: usize

text \<open>
  The static memory image of the loader, as far as this file and the fitness
  functions use it: the sizes of the executable and of the writeable memory, the
  bytes from an address to the end of its segment, and the disassembly of a range;
  \<open>'i\<close> is the type of a sequence of instructions.
\<close>

record 'i memory_image =
  size_of_executable_memory :: usize
  size_of_writeable_memory :: usize
  try_dereference :: "u64 \<Rightarrow> u8 list option"
  disassemble_at :: "u64 \<Rightarrow> usize \<Rightarrow> 'i option"

definition get_code :: "'i memory_image \<Rightarrow> block \<Rightarrow> u8 list result" where
  "get_code memory self =
     (case try_dereference memory (entry self) of
        None \<Rightarrow> Inl UnwrapNone
      | Some b \<Rightarrow>
          if unat (block_size self) \<le> length b then Inr (take (unat (block_size self)) b)
          else Inl IndexOutOfBounds)"

definition disassemble :: "'i memory_image \<Rightarrow> block \<Rightarrow> 'i result" where
  "disassemble memory self =
     (case disassemble_at memory (entry self) (block_size self) of
        None \<Rightarrow> Inl ExpectFailed
      | Some insns \<Rightarrow> Inr insns)"

text \<open>The \<open>Debug\<close> format of a block prints its entry and its end.\<close>

definition fmt_block :: "bool \<Rightarrow> block \<Rightarrow> string result" where
  "fmt_block oc self =
     and_then (add_oc oc (entry self) (block_size self)) (\<lambda>e.
       Inr (''[BLOCK 0x'' @ fmt_08x (entry self) @ '' - 0x'' @ fmt_08x e @ '']''))"

record mem_log_entry =
  program_counter :: u64
  address :: u64
  num_bytes_written :: usize
  value_written :: u64

text \<open>
  \<open>RegisterState::new\<close> is given the registers read after the run and the memory
  written by it; the state keeps both.
\<close>

type_synonym ('r, 's) register_state = "('r \<rightharpoonup> u64) \<times> 's list"

definition register_state_new :: "('r \<rightharpoonup> u64) \<Rightarrow> 's list \<Rightarrow> ('r, 's) register_state" where
  "register_state_new regs mem = (regs, mem)"

record ('r, 's) profiler =
  block_log :: "block list"
  gadget_log :: "u64 list"
  written_memory :: "'s list"
  write_log :: "mem_log_entry list"
  cpu_error :: "uc_error option"
  emulation_time :: duration
  registers :: "'r \<rightharpoonup> u64"
  registers_to_read :: "'r list"
  input :: "'r \<rightharpoonup> u64"

text \<open>
  The profile of a build without the feature \<open>full_dump\<close>, which is the only
  build in which \<open>from\<close> and \<open>collate\<close> compile: they fill the field
  \<open>writeable_memory\<close>, which exists in such a build only.
\<close>

record ('r, 's) profile =
  paths :: "block list list"
  cpu_errors :: "uc_error option list"
  emulation_times :: "duration list"
  registers :: "('r, 's) register_state list"
  gadgets_executed :: "u64 set list"
  writeable_memory :: "'s list list"
  write_logs :: "mem_log_entry list list"
  executable :: bool

subsection \<open>The profiler of one run\<close>

definition profiler_default :: "('r, 's) profiler" where
  "profiler_default =
     \<lparr>block_log = [], gadget_log = [], written_memory = [], write_log = [],
      cpu_error = None, emulation_time = 0, profiler.registers = Map.empty,
      registers_to_read = [], input = Map.empty\<rparr>"

definition profiler_new :: "'r list \<Rightarrow> ('r \<rightharpoonup> u64) \<Rightarrow> ('r, 's) profiler" where
  "profiler_new output_registers inp =
     profiler_default\<lparr>registers_to_read := output_registers, input := inp\<rparr>"

text \<open>The emulator is the partial function of its readable registers.\<close>

fun read_registers_loop :: "'r list \<Rightarrow> ('r \<rightharpoonup> u64) \<Rightarrow> ('r \<rightharpoonup> u64) \<Rightarrow> ('r \<rightharpoonup> u64) result" where
  "read_registers_loop [] emu regs = Inr regs"
| "read_registers_loop (r # rs) emu regs =
     (case emu r of
        None \<Rightarrow> Inl ExpectFailed
      | Some val \<Rightarrow> read_registers_loop rs emu (regs(r \<mapsto> val)))"

definition read_registers :: "('r, 's) profiler \<Rightarrow> ('r \<rightharpoonup> u64) \<Rightarrow> ('r, 's) profiler result" where
  "read_registers self emu =
     and_then (read_registers_loop (registers_to_read self) emu (profiler.registers self))
       (\<lambda>regs. Inr (self\<lparr>profiler.registers := regs\<rparr>))"

definition register :: "('r, 's) profiler \<Rightarrow> 'r \<Rightarrow> u64 option" where
  "register self reg = profiler.registers self reg"

definition set_error :: "('r, 's) profiler \<Rightarrow> uc_error \<Rightarrow> ('r, 's) profiler" where
  "set_error self error = self\<lparr>cpu_error := Some error\<rparr>"

definition record_block :: "('r, 's) profiler \<Rightarrow> block \<Rightarrow> ('r, 's) profiler" where
  "record_block self b = self\<lparr>block_log := block_log self @ [b]\<rparr>"

definition record_gadget :: "('r, 's) profiler \<Rightarrow> u64 \<Rightarrow> ('r, 's) profiler" where
  "record_gadget self g = self\<lparr>gadget_log := gadget_log self @ [g]\<rparr>"

definition record_write :: "('r, 's) profiler \<Rightarrow> mem_log_entry \<Rightarrow> ('r, 's) profiler" where
  "record_write self e = self\<lparr>write_log := write_log self @ [e]\<rparr>"

subsection \<open>From a profiler to a profile\<close>

fun segqueue_drain :: "'a list \<Rightarrow> 'a list \<Rightarrow> 'a list" where
  "segqueue_drain v [] = v"
| "segqueue_drain v (x # sq) = segqueue_drain (v @ [x]) sq"

definition segqueue_to_vec :: "'a list \<Rightarrow> 'a list" where
  "segqueue_to_vec sq = segqueue_drain [] sq"

fun drain_gadgets :: "u64 set \<Rightarrow> u64 list \<Rightarrow> u64 set" where
  "drain_gadgets executed [] = executed"
| "drain_gadgets executed (g # rest) = drain_gadgets (insert g executed) rest"

definition from_profiler :: "('r, 's) profiler \<Rightarrow> ('r, 's) profile" where
  "from_profiler p =
     \<lparr>paths = [segqueue_to_vec (block_log p)],
      cpu_errors = [cpu_error p],
      emulation_times = [emulation_time p],
      profile.registers = [register_state_new (profiler.registers p) (written_memory p)],
      gadgets_executed = [drain_gadgets {} (gadget_log p)],
      writeable_memory = [],
      write_logs = [segqueue_to_vec (write_log p)],
      executable = True\<rparr>"

definition profile_default :: "('r, 's) profile" where
  "profile_default =
     \<lparr>paths = [], cpu_errors = [], emulation_times = [], profile.registers = [],
      gadgets_executed = [], writeable_memory = [], write_logs = [], executable = False\<rparr>"

subsection \<open>Combining profiles\<close>

definition absorb :: "('r, 's) profile \<Rightarrow> ('r, 's) profile \<Rightarrow> ('r, 's) profile" where
  "absorb self other =
     \<lparr>paths = paths self @ paths other,
      cpu_errors = cpu_errors self @ cpu_errors other,
      emulation_times = emulation_times self @ emulation_times other,
      profile.registers = profile.registers self @ profile.registers other,
      gadgets_executed = gadgets_executed self @ gadgets_executed other,
      writeable_memory = writeable_memory self @ writeable_memory other,
      write_logs = write_logs self @ write_logs other,
      executable = (executable self \<and> executable other)\<rparr>"

definition collate_init :: "('r, 's) profile" where
  "collate_init =
     \<lparr>paths = [], cpu_errors = [], emulation_times = [], profile.registers = [],
      gadgets_executed = [], writeable_memory = [], write_logs = [], executable = True\<rparr>"

fun collate_loop :: "('r, 's) profiler list \<Rightarrow> ('r, 's) profile \<Rightarrow> ('r, 's) profile" where
  "collate_loop [] acc = acc"
| "collate_loop (p # profilers) acc =
     collate_loop profilers
       (acc\<lparr>paths := paths acc @ [segqueue_to_vec (block_log p)],
            gadgets_executed := gadgets_executed acc @ [drain_gadgets {} (gadget_log p)],
            cpu_errors := cpu_errors acc @ [cpu_error p],
            emulation_times := emulation_times acc @ [emulation_time p],
            profile.registers := profile.registers acc
               @ [register_state_new (profiler.registers p) (written_memory p)],
            write_logs := write_logs acc @ [segqueue_to_vec (write_log p)]\<rparr>)"

definition collate :: "('r, 's) profiler list \<Rightarrow> ('r, 's) profile" where
  "collate profilers = collate_loop profilers collate_init"

text \<open>The conversion \<open>From<Vec<Profiler>>\<close>.\<close>

definition profile_from :: "('r, 's) profiler list \<Rightarrow> ('r, 's) profile" where
  "profile_from v = collate v"

subsection \<open>Analytics\<close>

text \<open>
  \<open>Duration\<close> counts at most \<open>2 ^ 64\<close> seconds; summing durations panics beyond
  that in every build profile.
\<close>

definition duration_sum :: "duration list \<Rightarrow> duration result" where
  "duration_sum ds =
     (if sum_list ds < 2 ^ 64 * 10 ^ 9 then Inr (sum_list ds) else Inl ArithmeticOverflow)"

definition as_micros :: "duration \<Rightarrow> nat" where
  "as_micros d = d div 1000"

definition avg_emulation_micros :: "('r, 's) profile \<Rightarrow> fp result" where
  "avg_emulation_micros self =
     and_then (duration_sum (emulation_times self))
       (\<lambda>total. Inr (fp_div (fp_of_nat (as_micros total))
                            (fp_of_nat (length (emulation_times self)))))"

definition basic_block_path_iterator :: "('r, 's) profile \<Rightarrow> block list list" where
  "basic_block_path_iterator self = paths self"

fun insert_bytes :: "bool \<Rightarrow> u64 \<Rightarrow> nat list \<Rightarrow> u64 set \<Rightarrow> u64 set result" where
  "insert_bytes oc a [] s = Inr s"
| "insert_bytes oc a (i # is) s =
     and_then (add_oc oc a (of_nat i)) (\<lambda>x. insert_bytes oc a is (insert x s))"

fun addresses_loop :: "bool \<Rightarrow> mem_log_entry list \<Rightarrow> u64 set \<Rightarrow> u64 set result" where
  "addresses_loop oc [] s = Inr s"
| "addresses_loop oc (e # es) s =
     and_then (insert_bytes oc (address e) [0..<unat (num_bytes_written e)] s)
       (addresses_loop oc es)"

definition addresses_written_to :: "bool \<Rightarrow> ('r, 's) profile \<Rightarrow> u64 set result" where
  "addresses_written_to oc self = addresses_loop oc (concat (write_logs self)) {}"

text \<open>
  The size of the writeable memory belongs to the static memory image of the
  loader; it is an argument here.
\<close>

definition mem_write_ratio :: "bool \<Rightarrow> usize \<Rightarrow> ('r, 's) profile \<Rightarrow> fp result" where
  "mem_write_ratio oc size_of_writeable self =
     and_then (addresses_written_to oc self)
       (\<lambda>s. Inr (fp_div (fp_of_nat (card s)) (fp_of_nat (unat size_of_writeable))))"

definition was_this_written :: "('r, 's) profile \<Rightarrow> u64 \<Rightarrow> mem_log_entry list" where
  "was_this_written self w = filter (\<lambda>e. value_written e = w) (concat (write_logs self))"

fun was_this_executed_loop :: "u64 set list \<Rightarrow> u64 \<Rightarrow> bool" where
  "was_this_executed_loop [] w = False"
| "was_this_executed_loop (gads # rest) w =
     (if w \<in> gads then True else was_this_executed_loop rest w)"

definition was_this_executed :: "('r, 's) profile \<Rightarrow> u64 \<Rightarrow> bool" where
  "was_this_executed self w = was_this_executed_loop (gadgets_executed self) w"

text \<open>
  \<open>disas_paths\<close> prints the disassembly of every path, one string for each run. A
  block whose entry is an executed gadget is preceded by a rule. The source maps
  over the blocks of a path in parallel and collects in order; a block that does
  not disassemble makes the string of its path panic. The source returns a lazy
  iterator, so that panic is raised when the iterator reaches the path and not
  by the call: the model returns the items of the iterator, each one the
  string or the panic that asking for it gives. \<open>show_insns\<close> is the \<open>Display\<close>
  format of the instructions.
\<close>

fun disas_path ::
  "'i memory_image \<Rightarrow> ('i \<Rightarrow> string) \<Rightarrow> ('r, 's) profile \<Rightarrow> block list \<Rightarrow> string result" where
  "disas_path memory show_insns self [] = Inr []"
| "disas_path memory show_insns self (b # path) =
     (let prefix = (if was_this_executed self (entry b) then ''----\<newline>'' else [])
      in and_then (disassemble memory b) (\<lambda>insns.
         and_then (disas_path memory show_insns self path) (\<lambda>rest.
           Inr (prefix @ show_insns insns @ ''\<newline>'' @ rest))))"

definition disas_paths ::
  "'i memory_image \<Rightarrow> ('i \<Rightarrow> string) \<Rightarrow> ('r, 's) profile \<Rightarrow> string result list" where
  "disas_paths memory show_insns self = map (disas_path memory show_insns self) (paths self)"

subsection \<open>Specification level: runs and alignment\<close>

text \<open>
  The number of runs of a profile, the profile of its \<open>i\<close>-th run alone, and the
  alignment invariant: every per-run vector has one entry per run. The field
  \<open>writeable_memory\<close> is not a per-run vector: no conversion ever fills it.
\<close>

definition runs :: "('r, 's) profile \<Rightarrow> nat" where
  "runs p = length (paths p)"

definition aligned :: "('r, 's) profile \<Rightarrow> bool" where
  "aligned p \<longleftrightarrow>
     length (cpu_errors p) = runs p \<and> length (emulation_times p) = runs p \<and>
     length (profile.registers p) = runs p \<and> length (gadgets_executed p) = runs p \<and>
     length (write_logs p) = runs p"

definition run_at :: "('r, 's) profile \<Rightarrow> nat \<Rightarrow> ('r, 's) profile" where
  "run_at p i =
     \<lparr>paths = [paths p ! i], cpu_errors = [cpu_errors p ! i],
      emulation_times = [emulation_times p ! i],
      profile.registers = [profile.registers p ! i],
      gadgets_executed = [gadgets_executed p ! i], writeable_memory = [],
      write_logs = [write_logs p ! i], executable = True\<rparr>"

text \<open>
  The addresses of a block, and whether its end stays below \<open>2 ^ 64\<close>.
\<close>

definition block_addresses :: "block \<Rightarrow> u64 set" where
  "block_addresses b = {entry b..<entry b + block_size b}"

definition block_fits :: "block \<Rightarrow> bool" where
  "block_fits b \<longleftrightarrow> unat (entry b) + unat (block_size b) < 2 ^ 64"

text \<open>
  The addresses that one entry of a write log covers, and whether they stay below
  \<open>2 ^ 64\<close>, so that \<open>address + i\<close> does not overflow for any byte of the entry.
\<close>

definition entry_bytes :: "mem_log_entry \<Rightarrow> u64 set" where
  "entry_bytes e = (\<lambda>i. address e + of_nat i) ` {0..<unat (num_bytes_written e)}"

definition entry_fits :: "mem_log_entry \<Rightarrow> bool" where
  "entry_fits e \<longleftrightarrow> unat (address e) + unat (num_bytes_written e) \<le> 2 ^ 64"

text \<open>
  The callbacks of one emulation run, as the events that reach the profiler, in the
  order in which the queues receive them.
\<close>

datatype hook_event =
    BlockHook block
  | GadgetHook u64
  | WriteHook mem_log_entry
  | ErrorHook uc_error

fun record_event :: "('r, 's) profiler \<Rightarrow> hook_event \<Rightarrow> ('r, 's) profiler" where
  "record_event p (BlockHook b) = record_block p b"
| "record_event p (GadgetHook g) = record_gadget p g"
| "record_event p (WriteHook e) = record_write p e"
| "record_event p (ErrorHook err) = set_error p err"

definition record_all :: "('r, 's) profiler \<Rightarrow> hook_event list \<Rightarrow> ('r, 's) profiler" where
  "record_all p evs = foldl record_event p evs"

fun blocks_of :: "hook_event list \<Rightarrow> block list" where
  "blocks_of [] = []"
| "blocks_of (BlockHook b # evs) = b # blocks_of evs"
| "blocks_of (_ # evs) = blocks_of evs"

fun gadgets_of :: "hook_event list \<Rightarrow> u64 list" where
  "gadgets_of [] = []"
| "gadgets_of (GadgetHook g # evs) = g # gadgets_of evs"
| "gadgets_of (_ # evs) = gadgets_of evs"

fun writes_of :: "hook_event list \<Rightarrow> mem_log_entry list" where
  "writes_of [] = []"
| "writes_of (WriteHook e # evs) = e # writes_of evs"
| "writes_of (_ # evs) = writes_of evs"

fun last_error_of :: "uc_error option \<Rightarrow> hook_event list \<Rightarrow> uc_error option" where
  "last_error_of err [] = err"
| "last_error_of err (ErrorHook e # evs) = last_error_of (Some e) evs"
| "last_error_of err (_ # evs) = last_error_of err evs"

text \<open>
  The \<open>Debug\<close> format of a profiler prints the registers, the fault and the
  emulation time in microseconds. The formats of a register map and of a fault
  are parameters; the micro sign is the two bytes of its UTF-8 encoding.
\<close>

definition fmt_profiler ::
  "(('r \<rightharpoonup> u64) \<Rightarrow> string) \<Rightarrow> (uc_error option \<Rightarrow> string) \<Rightarrow> ('r, 's) profiler \<Rightarrow> string" where
  "fmt_profiler show_registers show_error self =
     ''registers: '' @ show_registers (profiler.registers self) @ ''; '' @
     ''cpu_error: '' @ show_error (cpu_error self) @ ''; '' @
     ''computation_time: '' @ to_dec (as_micros (emulation_time self)) @
       '' '' @ [char_of (206 :: nat), char_of (188 :: nat)] @ ''s; ''"

text \<open>
  The test \<open>test_collate\<close>: its macro \<open>segqueue!\<close> pushes the elements in the
  order written, and the test converts the two profilers into one profile.
\<close>

definition segqueue :: "'a list \<Rightarrow> 'a list" where
  "segqueue xs = fold (\<lambda>x q. q @ [x]) xs []"

text \<open>The two profilers of the test \<open>test_collate\<close>.\<close>

definition test_profiler_a :: "(string, nat) profiler" where
  "test_profiler_a =
     profiler_default\<lparr>block_log :=
                        segqueue [\<lparr>entry = 1, block_size = 2\<rparr>, \<lparr>entry = 3, block_size = 4\<rparr>],
                      cpu_error := None, emulation_time := 0,
                      profiler.registers := Map.empty\<rparr>"

definition test_profiler_b :: "(string, nat) profiler" where
  "test_profiler_b =
     profiler_default\<lparr>block_log :=
                        segqueue [\<lparr>entry = 1, block_size = 2\<rparr>, \<lparr>entry = 6, block_size = 6\<rparr>],
                      cpu_error := None, emulation_time := 0,
                      profiler.registers := Map.empty\<rparr>"

definition test_collate :: "(string, nat) profile" where
  "test_collate = profile_from [test_profiler_a, test_profiler_b]"

subsection \<open>Draining the queues\<close>

lemma fold_push: "fold (\<lambda>x q. q @ [x]) xs q = q @ xs"
  by (induction xs arbitrary: q) simp_all

lemma segqueue_id [simp]: "segqueue xs = xs"
  by (simp add: segqueue_def fold_push)

lemma segqueue_drain_append: "segqueue_drain v sq = v @ sq"
  by (induction sq arbitrary: v) simp_all

lemma segqueue_to_vec_id [simp]: "segqueue_to_vec sq = sq"
  by (simp add: segqueue_to_vec_def segqueue_drain_append)

lemma drain_gadgets_union: "drain_gadgets executed gs = executed \<union> set gs"
  by (induction gs arbitrary: executed) auto

lemma drain_gadgets_empty [simp]: "drain_gadgets {} gs = set gs"
  by (simp add: drain_gadgets_union)

lemma from_profiler_eq:
  "from_profiler p =
     \<lparr>paths = [block_log p], cpu_errors = [cpu_error p],
      emulation_times = [emulation_time p],
      profile.registers = [(profiler.registers p, written_memory p)],
      gadgets_executed = [set (gadget_log p)], writeable_memory = [],
      write_logs = [write_log p], executable = True\<rparr>"
  by (simp add: from_profiler_def register_state_new_def)

lemma record_all_Nil [simp]: "record_all p [] = p"
  by (simp add: record_all_def)

lemma record_all_Cons [simp]: "record_all p (ev # evs) = record_all (record_event p ev) evs"
  by (simp add: record_all_def)

lemmas record_defs = record_block_def record_gadget_def record_write_def set_error_def

text \<open>
  Freezing the log of a run keeps every queue in the order in which the
  callbacks filled it: whatever the interleaving of block, gadget, write and error
  callbacks, the profile of the run holds the blocks in callback order, the set of
  the gadgets, the writes in callback order and the last error reported.
\<close>

theorem freeze_fifo:
  "from_profiler (record_all p evs) =
     \<lparr>paths = [block_log p @ blocks_of evs],
      cpu_errors = [last_error_of (cpu_error p) evs],
      emulation_times = [emulation_time p],
      profile.registers = [(profiler.registers p, written_memory p)],
      gadgets_executed = [set (gadget_log p) \<union> set (gadgets_of evs)],
      writeable_memory = [],
      write_logs = [write_log p @ writes_of evs],
      executable = True\<rparr>"
proof (induction evs arbitrary: p)
  case Nil
  show ?case by (simp add: from_profiler_eq)
next
  case (Cons ev evs)
  show ?case
    by (cases ev) (auto simp: Cons.IH record_defs)
qed

subsection \<open>The closed form of \<open>collate\<close>\<close>

lemma collate_loop_eq:
  "collate_loop ps acc =
     acc\<lparr>paths := paths acc @ map block_log ps,
         cpu_errors := cpu_errors acc @ map cpu_error ps,
         emulation_times := emulation_times acc @ map emulation_time ps,
         profile.registers := profile.registers acc
            @ map (\<lambda>p. (profiler.registers p, written_memory p)) ps,
         gadgets_executed := gadgets_executed acc @ map (\<lambda>p. set (gadget_log p)) ps,
         write_logs := write_logs acc @ map write_log ps\<rparr>"
  by (induction ps arbitrary: acc) (simp_all add: register_state_new_def)

lemma collate_eq:
  "collate ps =
     \<lparr>paths = map block_log ps, cpu_errors = map cpu_error ps,
      emulation_times = map emulation_time ps,
      profile.registers = map (\<lambda>p. (profiler.registers p, written_memory p)) ps,
      gadgets_executed = map (\<lambda>p. set (gadget_log p)) ps, writeable_memory = [],
      write_logs = map write_log ps, executable = True\<rparr>"
  by (simp add: collate_def collate_loop_eq collate_init_def)

lemma collate_Nil [simp]: "collate [] = collate_init"
  by (simp add: collate_def)

lemma collate_single [simp]: "collate [p] = from_profiler p"
  by (simp add: collate_eq from_profiler_eq)

subsection \<open>\<open>absorb\<close> is a monoid and \<open>collate\<close> a homomorphism\<close>

lemma absorb_assoc: "absorb (absorb a b) c = absorb a (absorb b c)"
  by (simp add: absorb_def)

lemma absorb_collate_init_left [simp]: "absorb collate_init p = p"
  by (simp add: absorb_def collate_init_def)

lemma absorb_collate_init_right [simp]: "absorb p collate_init = p"
  by (simp add: absorb_def collate_init_def)

lemma collate_append: "collate (xs @ ys) = absorb (collate xs) (collate ys)"
  by (simp add: collate_eq absorb_def)

lemma collate_Cons: "collate (p # ps) = absorb (from_profiler p) (collate ps)"
  using collate_append [of "[p]" ps] by simp

lemma collate_snoc: "collate (ps @ [p]) = absorb (collate ps) (from_profiler p)"
  by (simp add: collate_append)

lemma foldl_absorb: "foldl absorb a (map from_profiler ps) = absorb a (collate ps)"
  by (induction ps arbitrary: a) (simp_all add: collate_Cons absorb_assoc)

text \<open>
  Claim C1. \<open>collate\<close> builds in one pass the profile that absorbing the single-run
  profiles one after the other, in the same order, builds from the empty profile
  of \<open>collate\<close>.
\<close>

theorem collate_is_fold_absorb:
  "collate ps = foldl absorb collate_init (map from_profiler ps)"
  by (simp add: foldl_absorb)

text \<open>
  Claim C21. Merging is associative along the run dimension: absorbing the profile
  of a sequence of runs equals absorbing the profile of a first part and then the
  profile of the rest.
\<close>

theorem absorb_split:
  "absorb p (collate (xs @ ys)) = absorb (absorb p (collate xs)) (collate ys)"
  by (simp add: collate_append absorb_assoc)

text \<open>
  Claim C39. The derived default profile is not the profile that \<open>collate\<close>
  starts from: absorbing the single-run profiles of any runs into
  \<open>Profile::default()\<close>, one after the other, builds the profile that \<open>collate\<close>
  builds from these runs, except that it is marked not executable.
\<close>

theorem fold_absorb_default:
  "foldl absorb profile_default (map from_profiler ps) = (collate ps)\<lparr>executable := False\<rparr>"
  by (simp add: foldl_absorb absorb_def profile_default_def collate_eq)

subsection \<open>Alignment of the per-run vectors\<close>

lemma runs_from_profiler [simp]: "runs (from_profiler p) = 1"
  by (simp add: runs_def from_profiler_eq)

lemma runs_collate [simp]: "runs (collate ps) = length ps"
  by (simp add: runs_def collate_eq)

lemma runs_absorb [simp]: "runs (absorb a b) = runs a + runs b"
  by (simp add: runs_def absorb_def)

lemma aligned_from_profiler [simp]: "aligned (from_profiler p)"
  by (simp add: aligned_def runs_def from_profiler_eq)

lemma aligned_collate [simp]: "aligned (collate ps)"
  by (simp add: aligned_def runs_def collate_eq)

lemma aligned_profile_default [simp]: "aligned profile_default"
  by (simp add: aligned_def runs_def profile_default_def)

text \<open>
  Claim C25. \<open>absorb\<close> keeps the per-run vectors aligned: if each of the two
  profiles has one entry per run in every per-run vector, so has the merged
  profile, and it has the runs of both.
\<close>

theorem aligned_absorb:
  "aligned a \<Longrightarrow> aligned b \<Longrightarrow> aligned (absorb a b) \<and> runs (absorb a b) = runs a + runs b"
  by (simp add: aligned_def runs_def absorb_def)

theorem aligned_absorb_witness:
  "aligned (from_profiler test_profiler_a) \<and> aligned (from_profiler test_profiler_b) \<and>
   aligned (absorb (from_profiler test_profiler_a) (from_profiler test_profiler_b)) \<and>
   runs (absorb (from_profiler test_profiler_a) (from_profiler test_profiler_b)) = 2"
  using aligned_absorb [of "from_profiler test_profiler_a" "from_profiler test_profiler_b"]
  by simp

text \<open>
  Claim C4. Every statistic of a collated profile stays with its run: the \<open>i\<close>-th
  entries of the vectors of \<open>collate ps\<close> are exactly the profile of the \<open>i\<close>-th
  profiler.
\<close>

theorem run_at_collate:
  "i < length ps \<Longrightarrow> run_at (collate ps) i = from_profiler (ps ! i)"
  by (simp add: run_at_def collate_eq from_profiler_eq)

theorem run_at_collate_witness:
  "(1::nat) < length [test_profiler_a, test_profiler_b] \<and>
   paths (run_at (collate [test_profiler_a, test_profiler_b]) 1) =
     [[\<lparr>entry = 1, block_size = 2\<rparr>, \<lparr>entry = 6, block_size = 6\<rparr>]]"
  using run_at_collate [of 1 "[test_profiler_a, test_profiler_b]"]
  by (simp add: from_profiler_eq test_profiler_b_def)

text \<open>
  Claim C40. Merging keeps the order of the runs: when the first profile is
  aligned, run \<open>i\<close> of the merged profile is run \<open>i\<close> of the first profile if
  there is one, and run \<open>i - runs a\<close> of the second otherwise.
\<close>

theorem run_at_absorb:
  "aligned a \<Longrightarrow>
   run_at (absorb a b) i = (if i < runs a then run_at a i else run_at b (i - runs a))"
  by (simp add: run_at_def absorb_def aligned_def runs_def nth_append)

theorem run_at_absorb_witness:
  "aligned (from_profiler test_profiler_a) \<and>
   run_at (absorb (from_profiler test_profiler_a) (from_profiler test_profiler_b)) 1 =
     run_at (from_profiler test_profiler_b) 0"
  using run_at_absorb [of "from_profiler test_profiler_a" "from_profiler test_profiler_b" 1]
  by simp

subsection \<open>Executed gadgets and written words\<close>

lemma was_this_executed_loop_iff:
  "was_this_executed_loop gs w \<longleftrightarrow> (\<exists>g \<in> set gs. w \<in> g)"
  by (induction gs) auto

text \<open>
  \<open>was_this_executed\<close> holds of an address exactly when the address is
  in the gadget set of at least one run of the profile.
\<close>

theorem was_this_executed_iff:
  "was_this_executed p w \<longleftrightarrow>
     (\<exists>i. i < length (gadgets_executed p) \<and> w \<in> gadgets_executed p ! i)"
  by (simp add: was_this_executed_def was_this_executed_loop_iff Bex_def in_set_conv_nth)
    blast

lemma was_this_executed_absorb:
  "was_this_executed (absorb a b) w \<longleftrightarrow> was_this_executed a w \<or> was_this_executed b w"
  by (auto simp: was_this_executed_def was_this_executed_loop_iff absorb_def)

text \<open>
  An address is reported as executed by a collated profile exactly when
  one of the collated runs logged it as a gadget.
\<close>

theorem was_this_executed_collate:
  "was_this_executed (collate ps) w \<longleftrightarrow> (\<exists>p. p \<in> set ps \<and> w \<in> set (gadget_log p))"
  by (auto simp: was_this_executed_def was_this_executed_loop_iff collate_eq)

lemma was_this_written_absorb:
  "was_this_written (absorb a b) w = was_this_written a w @ was_this_written b w"
  by (simp add: was_this_written_def absorb_def)

text \<open>
  \<open>was_this_written\<close> returns the entries of the write logs, of any run,
  whose value is the queried word, and only those.
\<close>

theorem was_this_written_iff:
  "e \<in> set (was_this_written p w) \<longleftrightarrow>
     (\<exists>l. l \<in> set (write_logs p) \<and> e \<in> set l) \<and> value_written e = w"
  by (auto simp: was_this_written_def)

subsection \<open>Written addresses\<close>

lemma insert_bytes_wraps:
  "insert_bytes False a is s = Inr (s \<union> (\<lambda>i. a + of_nat i) ` set is)"
  by (induction "is" arbitrary: s) (auto simp: add_oc_wraps)

lemma insert_bytes_fits:
  "(\<forall>i \<in> set is. unat a + i < 2 ^ 64) \<Longrightarrow>
   insert_bytes oc a is s = Inr (s \<union> (\<lambda>i. a + of_nat i) ` set is)"
proof (induction "is" arbitrary: s)
  case Nil
  then show ?case by simp
next
  case (Cons i "is")
  then have "unat a + unat (of_nat i :: u64) < 2 ^ LENGTH(64)"
    by (simp add: unat_of_nat_u64)
  then have "add_oc oc a (of_nat i) = Inr (a + of_nat i)"
    by (rule add_oc_in_range)
  with Cons show ?case by auto
qed

lemma insert_bytes_overflow:
  "i \<in> set is \<Longrightarrow> i < 2 ^ 64 \<Longrightarrow> 2 ^ 64 \<le> unat a + i \<Longrightarrow>
   insert_bytes True a is s = Inl ArithmeticOverflow"
proof (induction "is" arbitrary: s)
  case Nil
  then show ?case by simp
next
  case (Cons j "is")
  show ?case
  proof (cases "add_oc True a (of_nat j)")
    case (Inl p)
    then show ?thesis by (auto simp: add_oc_def split: if_splits)
  next
    case (Inr x)
    with Cons.prems have "i \<noteq> j"
      by (auto simp: add_oc_def unat_of_nat_u64 split: if_splits)
    with Cons Inr show ?thesis by simp
  qed
qed

lemma entry_insert_bytes:
  "insert_bytes oc (address e) [0..<unat (num_bytes_written e)] s =
     (if oc \<and> \<not> entry_fits e then Inl ArithmeticOverflow else Inr (s \<union> entry_bytes e))"
proof (cases "entry_fits e")
  case True
  then have "\<forall>i \<in> set [0..<unat (num_bytes_written e)]. unat (address e) + i < 2 ^ 64"
    by (auto simp: entry_fits_def)
  then show ?thesis
    using True by (simp add: insert_bytes_fits entry_bytes_def)
next
  case False
  let ?n = "unat (num_bytes_written e)"
  from False have n: "0 < ?n" "2 ^ 64 \<le> unat (address e) + (?n - 1)"
    using unat_less_u64 [of "address e"] by (auto simp: entry_fits_def)
  have "?n - 1 < 2 ^ 64"
    using unat_less_u64 [of "num_bytes_written e"] by simp
  with n have "insert_bytes True (address e) [0..<?n] s = Inl ArithmeticOverflow"
    by (intro insert_bytes_overflow [where i = "?n - 1"]) auto
  with False show ?thesis
    by (cases oc) (simp_all add: insert_bytes_wraps entry_bytes_def)
qed

lemma addresses_loop_eq:
  "addresses_loop oc es s =
     (if oc \<and> \<not> list_all entry_fits es then Inl ArithmeticOverflow
      else Inr (s \<union> (\<Union>e \<in> set es. entry_bytes e)))"
  by (induction es arbitrary: s) (auto simp: entry_insert_bytes)

text \<open>
  Claim C27. \<open>addresses_written_to\<close> returns the union of the byte ranges of all
  write-log entries. Built without overflow checks it always returns, the ranges
  wrapping around \<open>2 ^ 64\<close>; built with overflow checks it panics exactly when the
  range of some entry passes \<open>2 ^ 64\<close>.
\<close>

theorem addresses_written_to_eq:
  "addresses_written_to oc p =
     (if oc \<and> \<not> list_all entry_fits (concat (write_logs p)) then Inl ArithmeticOverflow
      else Inr (\<Union>e \<in> set (concat (write_logs p)). entry_bytes e))"
  by (simp add: addresses_written_to_def addresses_loop_eq)

lemma finite_entry_bytes [simp]: "finite (entry_bytes e)"
  by (simp add: entry_bytes_def)

lemma card_entry_bytes: "card (entry_bytes e) \<le> unat (num_bytes_written e)"
  unfolding entry_bytes_def by (rule order_trans [OF card_image_le]) simp_all

lemma card_Union_entry_bytes:
  "card (\<Union>e \<in> set es. entry_bytes e) \<le> (\<Sum>e\<leftarrow>es. unat (num_bytes_written e))"
proof (induction es)
  case Nil
  then show ?case by simp
next
  case (Cons e es)
  have "card (entry_bytes e \<union> (\<Union>e \<in> set es. entry_bytes e))
      \<le> card (entry_bytes e) + card (\<Union>e \<in> set es. entry_bytes e)"
    by (rule card_Un_le)
  with Cons card_entry_bytes [of e] show ?case by simp
qed

lemma mem_write_ratio_eq:
  "mem_write_ratio oc n p =
     (if oc \<and> \<not> list_all entry_fits (concat (write_logs p)) then Inl ArithmeticOverflow
      else Inr (fp_div (fp_of_nat (card (\<Union>e \<in> set (concat (write_logs p)). entry_bytes e)))
                       (fp_of_nat (unat n))))"
  by (simp add: mem_write_ratio_def addresses_written_to_def addresses_loop_eq)

text \<open>
  Claim C32. The ratio of written memory lies between 0 and 1 whenever the writeable
  memory is not empty and holds at least as many bytes as the write logs record.
\<close>

theorem mem_write_ratio_in_unit:
  assumes "mem_write_ratio oc n p = Inr r"
    and "n \<noteq> 0"
    and "(\<Sum>e\<leftarrow>concat (write_logs p). unat (num_bytes_written e)) \<le> unat n"
  shows "fp_in_unit r"
proof -
  let ?s = "\<Union>e \<in> set (concat (write_logs p)). entry_bytes e"
  from assms(1) have r: "r = fp_div (fp_of_nat (card ?s)) (fp_of_nat (unat n))"
    by (simp add: mem_write_ratio_eq split: if_splits)
  have "card ?s \<le> unat n"
    using card_Union_entry_bytes [of "concat (write_logs p)"] assms(3) by simp
  moreover have "0 < unat n"
    using assms(2) by (simp add: unat_gt_0)
  ultimately show ?thesis
    unfolding r by (intro fp_div_of_nat_in_unit)
qed

theorem mem_write_ratio_in_unit_witness:
  "\<exists>r. mem_write_ratio True 8
         (collate [test_profiler_a\<lparr>write_log :=
            [\<lparr>program_counter = 0, address = 0x1000, num_bytes_written = 4, value_written = 7\<rparr>]\<rparr>])
       = Inr r \<and> fp_in_unit r"
proof -
  let ?p = "collate [test_profiler_a\<lparr>write_log :=
      [\<lparr>program_counter = 0, address = 0x1000, num_bytes_written = 4, value_written = 7\<rparr>]\<rparr>]"
  obtain r where r: "mem_write_ratio True 8 ?p = Inr r"
    by (simp add: mem_write_ratio_eq from_profiler_eq entry_fits_def)
  moreover have "(8 :: usize) \<noteq> 0" by simp
  moreover have "(\<Sum>e\<leftarrow>concat (write_logs ?p). unat (num_bytes_written e)) \<le> unat (8 :: usize)"
    by (simp add: from_profiler_eq)
  ultimately have "fp_in_unit r" by (rule mem_write_ratio_in_unit)
  with r show ?thesis by blast
qed

text \<open>
  With no writeable memory and no write the ratio is not a number:
  nothing in \<open>mem_write_ratio\<close> guards the division.
\<close>

theorem mem_write_ratio_nan: "mem_write_ratio oc 0 (collate []) = Inr NaN"
  by (simp add: mem_write_ratio_eq collate_init_def fp_div_of_nat)

subsection \<open>Average emulation time\<close>

lemma avg_emulation_micros_eq:
  "avg_emulation_micros p =
     (let ts = emulation_times p in
      if 2 ^ 64 * 10 ^ 9 \<le> sum_list ts then Inl ArithmeticOverflow
      else if ts = [] then Inr NaN
      else Inr (Fin (real (sum_list ts div 1000) / real (length ts))))"
  by (auto simp: avg_emulation_micros_def duration_sum_def as_micros_def fp_div_of_nat Let_def)

text \<open>
  The whole microseconds of a sum of durations lie between the number of
  durations times the whole microseconds of the shortest one and the number
  of durations times the longest one.
\<close>

lemma sum_list_div_ge:
  fixes ts :: "nat list"
  assumes "\<forall>t \<in> set ts. m \<le> t"
  shows "length ts * (m div 1000) \<le> sum_list ts div 1000"
proof -
  have "length ts * m \<le> sum_list ts"
    using assms by (induction ts) auto
  moreover have "length ts * (m div 1000) * 1000 \<le> length ts * m"
    by (simp add: mult.assoc)
  ultimately have "length ts * (m div 1000) * 1000 \<le> sum_list ts" by (rule order_trans [rotated])
  then show ?thesis by (simp add: less_eq_div_iff_mult_less_eq)
qed

lemma sum_list_le_max:
  fixes ts :: "nat list"
  assumes "\<forall>t \<in> set ts. t \<le> m"
  shows "sum_list ts \<le> length ts * m"
  using assms by (induction ts) auto

text \<open>
  Claim C35. \<open>avg_emulation_micros\<close>, when the sum of the emulation times stays in
  the range of \<open>Duration\<close>: for a profile without runs it returns NaN; for a
  profile with runs it returns a number that is at least the whole
  microseconds of the shortest run and at most the microseconds of the longest
  run.
\<close>

theorem avg_emulation_micros_bounds:
  assumes "sum_list (emulation_times p) < 2 ^ 64 * 10 ^ 9"
  shows "(emulation_times p = [] \<longrightarrow> avg_emulation_micros p = Inr NaN) \<and>
     (emulation_times p \<noteq> [] \<longrightarrow>
        (\<exists>q. avg_emulation_micros p = Inr (Fin q) \<and>
           real (Min (set (emulation_times p)) div 1000) \<le> q \<and>
           q \<le> real (Max (set (emulation_times p))) / 1000))"
proof (cases "emulation_times p = []")
  case True
  with assms show ?thesis by (simp add: avg_emulation_micros_eq Let_def)
next
  case False
  let ?ts = "emulation_times p"
  let ?n = "length ?ts"
  from False have n: "0 < ?n" by simp
  have "?n * (Min (set ?ts) div 1000) \<le> sum_list ?ts div 1000"
    by (rule sum_list_div_ge) simp
  then have "real (?n * (Min (set ?ts) div 1000)) \<le> real (sum_list ?ts div 1000)"
    by (rule of_nat_mono)
  with n have lo: "real (Min (set ?ts) div 1000) \<le> real (sum_list ?ts div 1000) / real ?n"
    by (simp add: field_simps)
  have "sum_list ?ts \<le> ?n * Max (set ?ts)"
    by (rule sum_list_le_max) simp
  then have "real (sum_list ?ts) \<le> real (?n * Max (set ?ts))"
    by (rule of_nat_mono)
  moreover have "real (sum_list ?ts div 1000) \<le> real (sum_list ?ts) / 1000"
    by simp
  ultimately have "real (sum_list ?ts div 1000) \<le> real ?n * real (Max (set ?ts)) / 1000"
    by simp
  with n have hi: "real (sum_list ?ts div 1000) / real ?n \<le> real (Max (set ?ts)) / 1000"
    by (simp add: field_simps)
  have eq: "avg_emulation_micros p = Inr (Fin (real (sum_list ?ts div 1000) / real ?n))"
    using False assms by (simp add: avg_emulation_micros_eq Let_def)
  have "\<exists>q. avg_emulation_micros p = Inr (Fin q) \<and>
      real (Min (set ?ts) div 1000) \<le> q \<and> q \<le> real (Max (set ?ts)) / 1000"
    unfolding eq using lo hi by blast
  with False show ?thesis by blast
qed

theorem avg_emulation_micros_bounds_witness:
  "\<exists>q. avg_emulation_micros
         (collate [profiler_default\<lparr>emulation_time := 1500\<rparr>,
                   profiler_default\<lparr>emulation_time := 2500\<rparr>] :: (nat, nat) profile)
       = Inr (Fin q) \<and> 1 \<le> q \<and> q \<le> 5 / 2"
  using avg_emulation_micros_bounds
    [of "collate [profiler_default\<lparr>emulation_time := 1500\<rparr>,
                  profiler_default\<lparr>emulation_time := 2500\<rparr>] :: (nat, nat) profile"]
  by (simp add: collate_eq profiler_default_def)

subsection \<open>Reading the registers\<close>

lemma read_registers_loop_eq:
  "read_registers_loop rs emu regs =
     (if set rs \<subseteq> dom emu then Inr (regs ++ (emu |` set rs)) else Inl ExpectFailed)"
proof (induction rs arbitrary: regs)
  case Nil
  then show ?case by simp
next
  case (Cons r rs)
  show ?case
  proof (cases "emu r")
    case None
    then show ?thesis by (auto simp: dom_def)
  next
    case (Some v)
    have "(regs(r \<mapsto> v)) ++ (emu |` set rs) = regs ++ (emu |` insert r (set rs))"
      using Some by (auto simp: map_add_def restrict_map_def fun_eq_iff split: option.splits)
    with Some Cons show ?thesis by (auto simp: dom_def)
  qed
qed

text \<open>
  \<open>read_registers\<close> panics when the emulator cannot read one of the
  registers to read; otherwise every register to read holds the value of the
  emulator and every other register keeps its value.
\<close>

theorem read_registers_eq:
  "read_registers p emu =
     (if set (registers_to_read p) \<subseteq> dom emu
      then Inr (p\<lparr>profiler.registers :=
                   profiler.registers p ++ (emu |` set (registers_to_read p))\<rparr>)
      else Inl ExpectFailed)"
  by (simp add: read_registers_def read_registers_loop_eq)

lemma register_read_registers:
  "read_registers p emu = Inr p' \<Longrightarrow> r \<in> set (registers_to_read p) \<Longrightarrow>
   register p' r = emu r"
  by (auto simp: read_registers_def read_registers_loop_eq register_def map_add_def restrict_map_def
      split: if_splits option.splits)

subsection \<open>Blocks: code, disassembly and format\<close>

lemma finite_block_addresses [simp]: "finite (block_addresses b)"
  by (simp add: block_addresses_def)

lemma get_code_Inr:
  "get_code memory b = Inr c \<longleftrightarrow>
     (\<exists>bytes. try_dereference memory (entry b) = Some bytes \<and>
        unat (block_size b) \<le> length bytes \<and> c = take (unat (block_size b)) bytes)"
  by (auto simp: get_code_def split: option.split)

lemma get_code_length: "get_code memory b = Inr c \<Longrightarrow> length c = unat (block_size b)"
  by (auto simp: get_code_Inr)

lemma fmt_block_eq:
  "fmt_block oc b =
     (if oc \<and> \<not> block_fits b then Inl ArithmeticOverflow
      else Inr (''[BLOCK 0x'' @ fmt_08x (entry b) @ '' - 0x'' @ fmt_08x (entry b + block_size b)
                @ '']''))"
  by (auto simp: fmt_block_def add_oc_def block_fits_def not_less)

lemma fmt_block_example:
  "fmt_block True \<lparr>entry = 0x1000, block_size = 3\<rparr> = Inr ''[BLOCK 0x00001000 - 0x00001003]''"
  by (simp add: fmt_block_eq block_fits_def fmt_eval)

lemma disas_path_Inl:
  "disas_path memory sh p path = Inl e \<longleftrightarrow>
     e = ExpectFailed \<and>
     \<not> list_all (\<lambda>b. disassemble_at memory (entry b) (block_size b) \<noteq> None) path"
  by (induction path)
    (auto simp: Let_def disassemble_def and_then_eq_Inl_iff split: option.splits)

lemma disas_path_Inr:
  "list_all (\<lambda>b. disassemble_at memory (entry b) (block_size b) \<noteq> None) path \<Longrightarrow>
   \<exists>s. disas_path memory sh p path = Inr s"
  by (induction path) (auto simp: Let_def disassemble_def)

text \<open>
  \<open>disas_paths\<close> yields one item for each run; the item of a run panics exactly
  when some block of its path does not disassemble.
\<close>

lemma length_disas_paths [simp]: "length (disas_paths memory sh p) = runs p"
  by (simp add: disas_paths_def runs_def)

lemma disas_paths_nth_Inl:
  "i < runs p \<Longrightarrow>
   disas_paths memory sh p ! i = Inl e \<longleftrightarrow>
     e = ExpectFailed \<and>
     \<not> list_all (\<lambda>b. disassemble_at memory (entry b) (block_size b) \<noteq> None) (paths p ! i)"
  by (simp add: disas_paths_def runs_def disas_path_Inl)

subsection \<open>The test and the format of a profiler\<close>

text \<open>
  The test \<open>test_collate\<close> does not panic: its profile holds the two paths in
  the order of the profilers, aligned, and is marked executable.
\<close>

lemma test_collate_eq:
  "paths test_collate =
     [[\<lparr>entry = 1, block_size = 2\<rparr>, \<lparr>entry = 3, block_size = 4\<rparr>],
      [\<lparr>entry = 1, block_size = 2\<rparr>, \<lparr>entry = 6, block_size = 6\<rparr>]] \<and>
   runs test_collate = 2 \<and> aligned test_collate \<and> executable test_collate"
  by (simp add: test_collate_def profile_from_def test_profiler_a_def test_profiler_b_def
      collate_eq runs_def aligned_def)

text \<open>The emulation time can be read back from the format, in whole microseconds.\<close>

lemma fmt_profiler_time:
  "\<exists>pre. fmt_profiler sr se p = pre @ to_dec (emulation_time p div 1000) @
           '' '' @ [char_of (206 :: nat), char_of (188 :: nat)] @ ''s; '' \<and>
         of_dec (to_dec (emulation_time p div 1000)) = as_micros (emulation_time p)"
  by (simp add: fmt_profiler_def as_micros_def)

end
