(* ===== verification/Pack.thy ===== *)
theory Pack
  imports Rust_Prelude
begin

text \<open>
  Packing a genome into bytes, \<open>src/emulator/pack.rs\<close>.

  The trait \<open>Pack\<close> has two methods, \<open>pack\<close> and \<open>as_code_addrs\<close>, and one
  implementation, for byte vectors: a byte vector packs to itself, whatever the
  word size and the byte order, and has no code addresses: \<open>as_code_addrs\<close> is
  not implemented and panics.
\<close>

datatype endian = Little | Big

definition pack :: "u8 list \<Rightarrow> usize \<Rightarrow> endian \<Rightarrow> u8 list" where
  "pack self w e = self"

definition as_code_addrs :: "u8 list \<Rightarrow> usize \<Rightarrow> endian \<Rightarrow> u64 list result" where
  "as_code_addrs self word_size e = Inl Unimplemented"

end
