(* ===== verification/Rng.thy ===== *)
theory Rng
  imports Rust_Prelude "HOL-Library.Stream"
begin

text \<open>
  The thread-local random number generator of the \<open>rand\<close> crate (\<open>thread_rng\<close>).

  The generator is the supply of the values that it will return: one stream for
  each type that the sources draw (\<open>usize\<close>, \<open>u8\<close>, \<open>f32\<close>). Drawing a value takes the
  head of its stream; a \<open>u8\<close> is a \<open>char\<close>, the byte type of HOL, since the bytes
  drawn are written into strings. A statement that holds for every \<open>rng\<close> holds for every
  sequence of draws of the program. \<open>shuffle\<close> is the Fisher-Yates loop of
  \<open>SliceRandom::shuffle\<close>, and \<open>sample_alphanumeric\<close> picks from the 62 characters
  of \<open>Alphanumeric\<close>; both reduce a \<open>usize\<close> draw to the range that they need.
\<close>

subsection \<open>The generator\<close>

record rng =
  usize_src :: "usize stream"
  u8_src :: "char stream"
  f32_src :: "real stream"

definition gen_usize :: "rng \<Rightarrow> usize \<times> rng" where
  "gen_usize g = (shd (usize_src g), g\<lparr>usize_src := stl (usize_src g)\<rparr>)"

definition gen_u8 :: "rng \<Rightarrow> char \<times> rng" where
  "gen_u8 g = (shd (u8_src g), g\<lparr>u8_src := stl (u8_src g)\<rparr>)"

definition gen_f32 :: "rng \<Rightarrow> real \<times> rng" where
  "gen_f32 g = (shd (f32_src g), g\<lparr>f32_src := stl (f32_src g)\<rparr>)"

definition alphanumeric_charset :: string where
  "alphanumeric_charset =
     ''ABCDEFGHIJKLMNOPQRSTUVWXYZabcdefghijklmnopqrstuvwxyz0123456789''"

definition sample_alphanumeric :: "rng \<Rightarrow> char \<times> rng" where
  "sample_alphanumeric g =
     (let (r, g') = gen_usize g in (alphanumeric_charset ! (unat r mod 62), g'))"

subsection \<open>Shuffling\<close>

fun shuffle_loop :: "nat \<Rightarrow> 'a list \<Rightarrow> rng \<Rightarrow> 'a list \<times> rng" where
  "shuffle_loop 0 v g = (v, g)"
| "shuffle_loop (Suc i) v g =
     (let (r, g') = gen_usize g;
          j = unat r mod (Suc i + 1)
      in shuffle_loop i (v[Suc i := v ! j, j := v ! Suc i]) g')"

definition shuffle :: "'a list \<Rightarrow> rng \<Rightarrow> 'a list \<times> rng" where
  "shuffle v g = shuffle_loop (length v - 1) v g"

subsection \<open>Lemmas\<close>

lemma gen_usize_srcs [simp]:
  "u8_src (snd (gen_usize g)) = u8_src g"
  "f32_src (snd (gen_usize g)) = f32_src g"
  "usize_src (snd (gen_usize g)) = stl (usize_src g)"
  "fst (gen_usize g) = shd (usize_src g)"
  by (simp_all add: gen_usize_def)

lemma gen_f32_srcs [simp]:
  "u8_src (snd (gen_f32 g)) = u8_src g"
  "usize_src (snd (gen_f32 g)) = usize_src g"
  "f32_src (snd (gen_f32 g)) = stl (f32_src g)"
  "fst (gen_f32 g) = shd (f32_src g)"
  by (simp_all add: gen_f32_def)

lemma alphanumeric_charset_length [simp]: "length alphanumeric_charset = 62"
  by (simp add: alphanumeric_charset_def)

lemma alphanumeric_charset_ascii: "is_ascii alphanumeric_charset"
  by (simp add: alphanumeric_charset_def is_ascii_def)

lemma sample_alphanumeric_in_charset:
  "fst (sample_alphanumeric g) \<in> set alphanumeric_charset"
  by (simp add: sample_alphanumeric_def split_def Let_def)

lemma sample_alphanumeric_ascii: "(of_char (fst (sample_alphanumeric g)) :: nat) < 128"
  using sample_alphanumeric_in_charset [of g] alphanumeric_charset_ascii
  by (simp add: is_ascii_def list_all_iff)

lemma shuffle_loop_mset:
  "i < length v \<Longrightarrow> mset (fst (shuffle_loop i v g)) = mset v"
proof (induction i arbitrary: v g)
  case 0
  then show ?case by simp
next
  case (Suc i)
  let ?j = "unat (fst (gen_usize g)) mod (Suc i + 1)"
  let ?v = "v[Suc i := v ! ?j, ?j := v ! Suc i]"
  have j: "?j < length v"
    using Suc.prems by (simp add: less_le_trans [OF mod_less_divisor])
  have "mset (fst (shuffle_loop i ?v (snd (gen_usize g)))) = mset ?v"
    using Suc.prems by (intro Suc.IH) simp
  also have "mset ?v = mset v"
    using Suc.prems j by (simp add: mset_swap)
  finally show ?case
    by (simp add: split_def Let_def)
qed

lemma shuffle_mset [simp]: "mset (fst (shuffle v g)) = mset v"
  by (cases v) (simp_all add: shuffle_def shuffle_loop_mset)

lemma shuffle_length [simp]: "length (fst (shuffle v g)) = length v"
  by (metis shuffle_mset size_mset)

lemma shuffle_set [simp]: "set (fst (shuffle v g)) = set v"
  by (metis shuffle_mset set_mset_mset)

lemma shuffle_u8_src [simp]: "u8_src (snd (shuffle v g)) = u8_src g"
proof -
  have "u8_src (snd (shuffle_loop i v g)) = u8_src g" for i
    by (induction i arbitrary: v g) (simp_all add: split_def Let_def)
  then show ?thesis by (simp add: shuffle_def)
qed

text \<open>The loop of \<open>shuffle\<close> on a numeral, for the evaluation of examples.\<close>

lemma shuffle_loop_numeral:
  "shuffle_loop (numeral k) v g =
     (let (r, g') = gen_usize g;
          j = unat r mod (numeral k + 1)
      in shuffle_loop (pred_numeral k) (v[numeral k := v ! j, j := v ! numeral k]) g')"
  by (simp only: numeral_eq_Suc shuffle_loop.simps)

lemma shuffle_loop_Suc_0:
  "shuffle_loop (Suc 0) v g =
     (let (r, g') = gen_usize g; j = unat r mod 2
      in (v[Suc 0 := v ! j, j := v ! Suc 0], g'))"
  by (simp add: numeral_2_eq_2)

lemmas shuffle_eval =
  shuffle_def numeral_2_eq_2 [symmetric] shuffle_loop_Suc_0 shuffle_loop_numeral gen_usize_def

end
