(* ===== verification/Genome.thy ===== *)
theory Genome
  imports Rng
begin

text \<open>
  The configuration and the genome of the tournament example,
  \<open>src/examples/hello_world.rs\<close>, lines 11 to 123.

  A genome is a string of genes with a cached fitness. \<open>Fitness\<close> is \<open>usize\<close> in the
  source; it is a distance between two strings in memory and is held as a natural
  number. The operations that draw random numbers take the generator and return
  it: \<open>crossover\<close> draws the two split points, \<open>mutate\<close> the position and the bytes
  that it tries, \<open>mate\<close> one \<open>f32\<close> for each child. The loop of \<open>mutate\<close> tries
  bytes until one is printable and need not end: \<open>mutate_loop\<close> returns \<open>None\<close>
  when the supply of bytes holds no printable byte. \<open>levenshtein\<close> is the edit
  distance of the \<open>distance\<close> crate, by its textbook recursion.
\<close>

subsection \<open>Configuration\<close>

record observer_config =
  window_size :: usize

record config =
  mut_rate :: real
  init_len :: usize
  pop_size :: usize
  tournament_size :: usize
  num_offspring :: usize
  target :: string
  observer :: observer_config

definition assert_invariants :: "bool \<Rightarrow> config \<Rightarrow> unit result" where
  "assert_invariants oc self =
     and_then (add_oc oc (num_offspring self) 2)
       (\<lambda>n. if n \<le> tournament_size self then Inr () else Inl AssertionFailed)"

subsection \<open>Edit distance\<close>

fun levenshtein :: "'a list \<Rightarrow> 'a list \<Rightarrow> nat" where
  "levenshtein [] ys = length ys"
| "levenshtein (x # xs) [] = Suc (length xs)"
| "levenshtein (x # xs) (y # ys) =
     min (min (levenshtein xs (y # ys) + 1) (levenshtein (x # xs) ys + 1))
         (levenshtein xs ys + (if x = y then 0 else 1))"

subsection \<open>Genomes\<close>

record genome =
  genes :: string
  fitness :: "nat option"

fun random_genes :: "nat \<Rightarrow> rng \<Rightarrow> string \<times> rng" where
  "random_genes 0 g = ([], g)"
| "random_genes (Suc n) g =
     (let (c, g1) = sample_alphanumeric g;
          (s, g2) = random_genes n g1
      in (c # s, g2))"

definition genome_new :: "usize \<Rightarrow> rng \<Rightarrow> genome \<times> rng" where
  "genome_new n g =
     (let (s, g') = random_genes (unat n) g in (\<lparr>genes = s, fitness = None\<rparr>, g'))"

definition len :: "genome \<Rightarrow> nat" where
  "len self = length (genes self)"

definition fitter_than :: "genome \<Rightarrow> genome \<Rightarrow> bool" where
  "fitter_than self other =
     (case (fitness self, fitness other) of
        (Some a, Some b) \<Rightarrow> a < b
      | _ \<Rightarrow> False)"

definition crossover :: "genome \<Rightarrow> genome \<Rightarrow> rng \<Rightarrow> (genome list \<times> rng) result" where
  "crossover self mate g =
     (let (r1, g1) = gen_usize g in
      if len self = 0 then Inl RemainderByZero
      else
        let split_m = unat r1 mod len self;
            (r2, g2) = gen_usize g1
        in if len mate = 0 then Inl RemainderByZero
           else
             let split_f = unat r2 mod len mate in
             and_then (split_at (genes self) split_m) (\<lambda>(m1, m2).
             and_then (split_at (genes mate) split_f) (\<lambda>(f1, f2).
               Inr ([\<lparr>genes = m1 @ f2, fitness = None\<rparr>,
                     \<lparr>genes = m2 @ f1, fitness = None\<rparr>], g2))))"

partial_function (option) mutate_loop :: "char \<Rightarrow> char stream \<Rightarrow> (char \<times> char stream) option" where
  "mutate_loop c s =
     (if (of_char c :: nat) < 0x20 \<or> 0x7E < (of_char c :: nat)
      then mutate_loop (shd s) (stl s)
      else Some (c, s))"

definition mutate :: "genome \<Rightarrow> rng \<Rightarrow> (genome \<times> rng) exec" where
  "mutate self g =
     (let (r, g1) = gen_usize g in
      if len self = 0 then Some (Inl RemainderByZero)
      else
        let i = unat r mod len self in
        case mutate_loop (CHR 0x00) (u8_src g1) of
          None \<Rightarrow> None
        | Some (c, s) \<Rightarrow>
            Some (Inr (self\<lparr>genes := (genes self)[i := c]\<rparr>,
                       g1\<lparr>u8_src := s\<rparr>)))"

fun mutate_each :: "real \<Rightarrow> genome list \<Rightarrow> rng \<Rightarrow> (genome list \<times> rng) exec" where
  "mutate_each rate [] g = Some (Inr ([], g))"
| "mutate_each rate (child # rest) g =
     (let (x, g1) = gen_f32 g in
      case (if x < rate then mutate child g1 else Some (Inr (child, g1))) of
        None \<Rightarrow> None
      | Some (Inl p) \<Rightarrow> Some (Inl p)
      | Some (Inr (child', g2)) \<Rightarrow>
          (case mutate_each rate rest g2 of
             None \<Rightarrow> None
           | Some (Inl p) \<Rightarrow> Some (Inl p)
           | Some (Inr (rest', g3)) \<Rightarrow> Some (Inr (child' # rest', g3))))"

definition mate :: "genome \<Rightarrow> genome \<Rightarrow> config \<Rightarrow> rng \<Rightarrow> (genome list \<times> rng) exec" where
  "mate self other params g =
     (case crossover self other g of
        Inl p \<Rightarrow> Some (Inl p)
      | Inr (offspring, g1) \<Rightarrow> mutate_each (mut_rate params) offspring g1)"

definition score_mut :: "genome \<Rightarrow> config \<Rightarrow> (nat \<times> genome) result" where
  "score_mut self params =
     (let self' = (if fitness self = None
                   then self\<lparr>fitness := Some (levenshtein (genes self) (target params))\<rparr>
                   else self)
      in case fitness self' of
           None \<Rightarrow> Inl ExpectFailed
         | Some f \<Rightarrow> Inr (f, self'))"

subsection \<open>Specification level\<close>

text \<open>
  A byte that \<open>mutate\<close> accepts, a supply of bytes that never runs out of
  printable bytes, a genome whose operations cannot panic, and a cached fitness
  that agrees with the distance to the target.
\<close>

definition printable :: "char \<Rightarrow> bool" where
  "printable c \<longleftrightarrow> 0x20 \<le> (of_char c :: nat) \<and> (of_char c :: nat) \<le> 0x7E"

definition fair_bytes :: "char stream \<Rightarrow> bool" where
  "fair_bytes s \<longleftrightarrow> (\<forall>k. \<exists>n. printable (sdrop k s !! n))"

definition mutant_of :: "genome \<Rightarrow> genome \<Rightarrow> bool" where
  "mutant_of x y \<longleftrightarrow>
     y = x \<or> (\<exists>i c. i < len x \<and> printable c \<and> y = x\<lparr>genes := (genes x)[i := c]\<rparr>)"

definition genome_ok :: "genome \<Rightarrow> bool" where
  "genome_ok x \<longleftrightarrow> genes x \<noteq> [] \<and> is_ascii (genes x)"

definition fitness_ok :: "string \<Rightarrow> genome \<Rightarrow> bool" where
  "fitness_ok t x \<longleftrightarrow> (case fitness x of None \<Rightarrow> True | Some f \<Rightarrow> f = levenshtein (genes x) t)"

text \<open>A configuration and a generator for the examples.\<close>

definition example_config :: config where
  "example_config =
     \<lparr>mut_rate = 0.1, init_len = 5, pop_size = 20, tournament_size = 5,
      num_offspring = 2, target = ''HELLO'', observer = \<lparr>window_size = 10\<rparr>\<rparr>"

definition example_rng :: rng where
  "example_rng =
     \<lparr>usize_src = sconst 3, u8_src = [CHR 0x01, CHR 0xC8] @- sconst CHR ''H'',
      f32_src = sconst 0.05\<rparr>"

subsection \<open>Edit distance\<close>

lemma levenshtein_Nil2 [simp]: "levenshtein xs [] = length xs"
  by (cases xs) simp_all

lemma levenshtein_refl [simp]: "levenshtein xs xs = 0"
  by (induction xs) simp_all

lemma levenshtein_eq_0_iff: "levenshtein xs ys = 0 \<longleftrightarrow> xs = ys"
  by (induction xs ys rule: levenshtein.induct) auto

lemma levenshtein_le_max: "levenshtein xs ys \<le> max (length xs) (length ys)"
  by (induction xs ys rule: levenshtein.induct) auto

lemma levenshtein_sym: "levenshtein xs ys = levenshtein ys xs"
  by (induction xs ys rule: levenshtein.induct) (auto simp: min.commute min.left_commute)

subsection \<open>The loop of \<open>mutate\<close>\<close>

lemma mutate_loop_printable: "printable c \<Longrightarrow> mutate_loop c s = Some (c, s)"
  by (subst mutate_loop.simps) (auto simp: printable_def)

lemma mutate_loop_skip: "\<not> printable c \<Longrightarrow> mutate_loop c s = mutate_loop (shd s) (stl s)"
  by (subst mutate_loop.simps) (auto simp: printable_def)

lemma mutate_loop_first:
  "\<not> printable c \<Longrightarrow> printable (s !! n) \<Longrightarrow> (\<forall>k<n. \<not> printable (s !! k)) \<Longrightarrow>
   mutate_loop c s = Some (s !! n, sdrop (Suc n) s)"
proof (induction n arbitrary: c s)
  case 0
  then show ?case by (simp add: mutate_loop_skip mutate_loop_printable)
next
  case (Suc n)
  from Suc.prems have "\<not> printable (shd s)" by (metis snth.simps(1) zero_less_Suc)
  moreover from Suc.prems have "printable (stl s !! n)" by simp
  moreover from Suc.prems have "\<forall>k<n. \<not> printable (stl s !! k)"
    by (metis Suc_less_eq snth.simps(2))
  ultimately have "mutate_loop (shd s) (stl s) = Some (stl s !! n, sdrop (Suc n) (stl s))"
    by (rule Suc.IH)
  with Suc.prems(1) show ?case by (simp add: mutate_loop_skip)
qed

lemma mutate_loop_returns:
  assumes "\<not> printable c" and "printable (s !! m)"
  shows "\<exists>n. mutate_loop c s = Some (s !! n, sdrop (Suc n) s) \<and> printable (s !! n)"
proof -
  define n where "n = (LEAST n. printable (s !! n))"
  have "printable (s !! n)"
    unfolding n_def using assms(2) by (rule LeastI)
  moreover have "\<forall>k<n. \<not> printable (s !! k)"
    unfolding n_def using not_less_Least by blast
  ultimately show ?thesis
    using assms(1) mutate_loop_first by blast
qed

lemma mutate_loop_Some:
  assumes "mutate_loop c s = Some r"
  shows "printable (fst r) \<and> (r = (c, s) \<or> (\<exists>n. r = (s !! n, sdrop (Suc n) s)))"
proof (rule mutate_loop.raw_induct
    [where P = "\<lambda>c s r. printable (fst r) \<and> (r = (c, s) \<or> (\<exists>n. r = (s !! n, sdrop (Suc n) s)))",
      OF _ assms])
  fix f c s r
  assume IH: "\<And>c s r. f c s = Some r \<Longrightarrow>
      printable (fst r) \<and> (r = (c, s) \<or> (\<exists>n. r = (s !! n, sdrop (Suc n) s)))"
    and eq: "(if (of_char c :: nat) < 0x20 \<or> 0x7E < (of_char c :: nat)
        then f (shd s) (stl s) else Some (c, s)) = Some r"
  show "printable (fst r) \<and> (r = (c, s) \<or> (\<exists>n. r = (s !! n, sdrop (Suc n) s)))"
  proof (cases "printable c")
    case True
    with eq show ?thesis by (auto simp: printable_def)
  next
    case False
    with eq have "f (shd s) (stl s) = Some r" by (auto simp: printable_def)
    from IH [OF this] show ?thesis
    proof (elim conjE disjE exE)
      assume "printable (fst r)" "r = (shd s, stl s)"
      then have "r = (s !! 0, sdrop (Suc 0) s)" by simp
      with \<open>printable (fst r)\<close> show ?thesis by blast
    next
      fix n
      assume "printable (fst r)" "r = (stl s !! n, sdrop (Suc n) (stl s))"
      then have "r = (s !! Suc n, sdrop (Suc (Suc n)) s)" by simp
      with \<open>printable (fst r)\<close> show ?thesis by blast
    qed
  qed
qed

lemma mutate_loop_None:
  "\<not> printable c \<Longrightarrow> (\<forall>n. \<not> printable (s !! n)) \<Longrightarrow> mutate_loop c s = None"
  using mutate_loop_Some [of c s] by (cases "mutate_loop c s") auto

lemma fair_bytes_sdrop: "fair_bytes s \<Longrightarrow> fair_bytes (sdrop k s)"
  by (auto simp: fair_bytes_def)

lemma fair_bytes_stl: "fair_bytes s \<Longrightarrow> fair_bytes (stl s)"
  using fair_bytes_sdrop [of s 1] by simp

lemma fair_bytes_snth: "fair_bytes s \<Longrightarrow> \<exists>n. printable (s !! n)"
  unfolding fair_bytes_def by (metis sdrop.simps(1))

lemma fair_bytes_sconst: "printable c \<Longrightarrow> fair_bytes (xs @- sconst c)"
  unfolding fair_bytes_def
proof
  fix k
  assume c: "printable c"
  have "sdrop k (xs @- sconst c) !! length xs = c"
    by (simp add: sdrop_snth)
  with c show "\<exists>n. printable (sdrop k (xs @- sconst c) !! n)" by metis
qed

subsection \<open>Crossover and mutation\<close>

lemma crossover_eq:
  "crossover self other g =
     (if len self = 0 \<or> len other = 0 then Inl RemainderByZero
      else
        and_then (split_at (genes self) (unat (shd (usize_src g)) mod len self)) (\<lambda>(m1, m2).
        and_then (split_at (genes other) (unat (shd (stl (usize_src g))) mod len other)) (\<lambda>(f1, f2).
          Inr ([\<lparr>genes = m1 @ f2, fitness = None\<rparr>, \<lparr>genes = m2 @ f1, fitness = None\<rparr>],
               g\<lparr>usize_src := stl (stl (usize_src g))\<rparr>))))"
  by (simp add: crossover_def gen_usize_def Let_def)

lemma crossover_empty:
  "len self = 0 \<or> len other = 0 \<Longrightarrow> crossover self other g = Inl RemainderByZero"
  by (simp add: crossover_eq)

lemma crossover_Inr:
  assumes "crossover self other g = Inr (cs, g')"
  obtains m1 m2 f1 f2 where
    "genes self = m1 @ m2" and "genes other = f1 @ f2" and "m2 \<noteq> []" and "f2 \<noteq> []"
    and "cs = [\<lparr>genes = m1 @ f2, fitness = None\<rparr>, \<lparr>genes = m2 @ f1, fitness = None\<rparr>]"
proof -
  let ?m = "unat (shd (usize_src g)) mod len self"
  let ?f = "unat (shd (stl (usize_src g))) mod len other"
  from assms have pos: "0 < len self" "0 < len other"
    by (auto simp: crossover_eq split: if_splits)
  with assms obtain m1 m2 f1 f2 where
    m: "split_at (genes self) ?m = Inr (m1, m2)" and
    f: "split_at (genes other) ?f = Inr (f1, f2)" and
    cs: "cs = [\<lparr>genes = m1 @ f2, fitness = None\<rparr>, \<lparr>genes = m2 @ f1, fitness = None\<rparr>]"
    by (auto simp: crossover_eq and_then_eq_Inr_iff)
  from split_at_Inr [OF m] have lm: "len self = length m1 + length m2" "length m1 = ?m"
    by (auto simp: len_def dest: arg_cong [where f = length])
  from split_at_Inr [OF f] have lf: "len other = length f1 + length f2" "length f1 = ?f"
    by (auto simp: len_def dest: arg_cong [where f = length])
  have "?m < len self" "?f < len other" using pos by simp_all
  with lm lf have "0 < length m2" "0 < length f2" by linarith+
  then have ne: "m2 \<noteq> []" "f2 \<noteq> []" by simp_all
  from split_at_Inr [OF m] split_at_Inr [OF f]
  have eq: "genes self = m1 @ m2" "genes other = f1 @ f2" by simp_all
  from eq ne cs show ?thesis by (rule that)
qed

text \<open>
  Claim C20. Whenever \<open>crossover\<close> returns, it returns exactly two children whose
  lengths add up to the lengths of the two parents; neither child is empty and
  neither carries a cached fitness.
\<close>

theorem crossover_conserves_length:
  assumes "crossover self other g = Inr (cs, g')"
  shows "\<exists>c1 c2. cs = [c1, c2] \<and> len c1 + len c2 = len self + len other \<and>
           0 < len c1 \<and> 0 < len c2 \<and> fitness c1 = None \<and> fitness c2 = None"
  using assms by (rule crossover_Inr) (simp add: len_def)

lemma crossover_ok:
  assumes "genome_ok self" and "genome_ok other"
  shows "crossover self other g =
     Inr ([\<lparr>genes = take (unat (shd (usize_src g)) mod len self) (genes self)
                    @ drop (unat (shd (stl (usize_src g))) mod len other) (genes other),
             fitness = None\<rparr>,
           \<lparr>genes = drop (unat (shd (usize_src g)) mod len self) (genes self)
                    @ take (unat (shd (stl (usize_src g))) mod len other) (genes other),
             fitness = None\<rparr>],
          g\<lparr>usize_src := stl (stl (usize_src g))\<rparr>)"
proof -
  from assms have pos: "0 < len self" "0 < len other"
    by (simp_all add: genome_ok_def len_def)
  then have "unat (shd (usize_src g)) mod len self \<le> length (genes self)"
    "unat (shd (stl (usize_src g))) mod len other \<le> length (genes other)"
    by (simp_all add: len_def less_imp_le)
  with assms pos show ?thesis
    by (simp add: crossover_eq genome_ok_def split_at_ascii)
qed

lemma crossover_genome_ok:
  assumes "genome_ok self" and "genome_ok other" and "crossover self other g = Inr (cs, g')"
  shows "list_all genome_ok cs"
proof -
  from assms(3) have "list_all (\<lambda>c. genes c \<noteq> []) cs"
    by (rule crossover_Inr) simp
  moreover have "list_all (\<lambda>c. is_ascii (genes c)) cs"
    using assms by (auto simp: crossover_ok genome_ok_def is_ascii_take is_ascii_drop)
  ultimately show ?thesis
    by (auto simp: genome_ok_def list_all_iff)
qed

lemma mutate_empty: "len self = 0 \<Longrightarrow> mutate self g = Some (Inl RemainderByZero)"
  by (simp add: mutate_def split_def)

lemma mutate_Inr:
  assumes "0 < len self" and "printable (u8_src g !! m)"
  shows "\<exists>n. mutate self g =
      Some (Inr (self\<lparr>genes := (genes self)[unat (shd (usize_src g)) mod len self := u8_src g !! n]\<rparr>,
                 g\<lparr>usize_src := stl (usize_src g), u8_src := sdrop (Suc n) (u8_src g)\<rparr>))
    \<and> printable (u8_src g !! n)"
proof -
  have "\<not> printable (CHR 0x00)" by (simp add: printable_def)
  from mutate_loop_returns [OF this assms(2)] obtain n where
    "mutate_loop (CHR 0x00) (u8_src g) = Some (u8_src g !! n, sdrop (Suc n) (u8_src g))"
    "printable (u8_src g !! n)" by blast
  with assms(1) show ?thesis
    by (auto simp: mutate_def gen_usize_def)
qed

text \<open>
  Claim C29. \<open>mutate\<close> returns for a genome that is not empty as soon as the supply
  of bytes holds a printable byte: it overwrites one gene, at the position drawn
  modulo the length, with the first printable byte of the supply, and consumes
  the supply up to that byte.
\<close>

theorem mutate_returns:
  assumes "0 < len self" and "printable (u8_src g !! m)"
  shows "\<exists>n. mutate self g =
      Some (Inr (self\<lparr>genes := (genes self)[unat (shd (usize_src g)) mod len self := u8_src g !! n]\<rparr>,
                 g\<lparr>usize_src := stl (usize_src g), u8_src := sdrop (Suc n) (u8_src g)\<rparr>))
    \<and> printable (u8_src g !! n)"
  using assms by (rule mutate_Inr)

text \<open>
  Claim C30. \<open>mutate\<close> does not return when the supply of bytes holds no printable
  byte: its loop draws bytes forever.
\<close>

theorem mutate_diverges:
  "0 < len self \<Longrightarrow> (\<forall>n. \<not> printable (u8_src g !! n)) \<Longrightarrow> mutate self g = None"
  by (simp add: mutate_def gen_usize_def mutate_loop_None printable_def)

lemma printable_ascii: "printable c \<Longrightarrow> (of_char c :: nat) < 128"
  by (simp add: printable_def)

subsection \<open>Mating, scoring and creation\<close>

lemma mutant_of_refl [simp]: "mutant_of x x"
  by (simp add: mutant_of_def)

lemma mutant_of_len: "mutant_of x y \<Longrightarrow> len y = len x"
  by (auto simp: mutant_of_def len_def)

lemma mutant_of_fitness: "mutant_of x y \<Longrightarrow> fitness y = fitness x"
  by (auto simp: mutant_of_def)

lemma mutant_of_genome_ok: "mutant_of x y \<Longrightarrow> genome_ok x \<Longrightarrow> genome_ok y"
  by (auto simp: mutant_of_def genome_ok_def is_ascii_update printable_ascii)

lemma mutate_ok:
  assumes "genome_ok self" and "fair_bytes (u8_src g)"
  shows "\<exists>y g'. mutate self g = Some (Inr (y, g')) \<and> mutant_of self y \<and>
           fair_bytes (u8_src g') \<and> f32_src g' = f32_src g"
proof -
  from assms(1) have pos: "0 < len self" by (simp add: genome_ok_def len_def)
  from assms(2) obtain m where "printable (u8_src g !! m)"
    using fair_bytes_snth by blast
  from mutate_Inr [OF pos this] obtain n where
    n: "mutate self g =
      Some (Inr (self\<lparr>genes := (genes self)[unat (shd (usize_src g)) mod len self := u8_src g !! n]\<rparr>,
                 g\<lparr>usize_src := stl (usize_src g), u8_src := sdrop (Suc n) (u8_src g)\<rparr>))"
    and p: "printable (u8_src g !! n)" by blast
  have "mutant_of self
      (self\<lparr>genes := (genes self)[unat (shd (usize_src g)) mod len self := u8_src g !! n]\<rparr>)"
    unfolding mutant_of_def using pos p by (intro disjI2 exI conjI) (auto simp: mod_less_divisor)
  moreover have "fair_bytes (sdrop (Suc n) (u8_src g))"
    using assms(2) by (rule fair_bytes_sdrop)
  ultimately show ?thesis
    using n by simp
qed

lemma mutate_each_ok:
  assumes "list_all genome_ok cs" and "fair_bytes (u8_src g)"
  shows "\<exists>ys g'. mutate_each rate cs g = Some (Inr (ys, g')) \<and> list_all2 mutant_of cs ys \<and>
           fair_bytes (u8_src g')"
  using assms
proof (induction cs arbitrary: g)
  case Nil
  then show ?case by simp
next
  case (Cons c cs)
  let ?g1 = "snd (gen_f32 g)"
  have fair1: "fair_bytes (u8_src ?g1)" using Cons.prems(2) by simp
  have "\<exists>y g2. (if fst (gen_f32 g) < rate then mutate c ?g1 else Some (Inr (c, ?g1)))
           = Some (Inr (y, g2)) \<and> mutant_of c y \<and> fair_bytes (u8_src g2)"
  proof (cases "fst (gen_f32 g) < rate")
    case True
    from Cons.prems(1) have "genome_ok c" by simp
    from mutate_ok [OF this fair1] True show ?thesis by auto
  next
    case False
    with fair1 show ?thesis by simp
  qed
  then obtain y g2 where
    step: "(if fst (gen_f32 g) < rate then mutate c ?g1 else Some (Inr (c, ?g1))) = Some (Inr (y, g2))"
    and y: "mutant_of c y" and fair2: "fair_bytes (u8_src g2)" by blast
  from Cons.prems(1) have "list_all genome_ok cs" by simp
  from Cons.IH [OF this fair2] obtain ys g3 where
    rest: "mutate_each rate cs g2 = Some (Inr (ys, g3))"
    and ys: "list_all2 mutant_of cs ys" and fair3: "fair_bytes (u8_src g3)" by blast
  have "mutate_each rate (c # cs) g = Some (Inr (y # ys, g3))"
    using step rest by (simp add: split_def)
  with y ys fair3 show ?case by simp
qed

lemma mate_returns:
  assumes "genome_ok self" and "genome_ok other" and "fair_bytes (u8_src g)"
  shows "\<exists>c1 c2 g'. mate self other params g = Some (Inr ([c1, c2], g')) \<and>
           genome_ok c1 \<and> genome_ok c2 \<and> len c1 + len c2 = len self + len other \<and>
           fitness c1 = None \<and> fitness c2 = None \<and> fair_bytes (u8_src g')"
proof -
  obtain cs g1 where x: "crossover self other g = Inr (cs, g1)"
    and g1: "u8_src g1 = u8_src g"
    using crossover_ok [OF assms(1,2), of g] by simp
  from x obtain a b where
    cs: "cs = [a, b]" and ab: "len a + len b = len self + len other"
      "fitness a = None" "fitness b = None"
    by (rule crossover_Inr) (simp add: len_def)
  from crossover_genome_ok [OF assms(1,2) x] have ok: "list_all genome_ok cs" .
  from mutate_each_ok [OF ok, of g1 "mut_rate params"] assms(3) g1 obtain ys g' where
    m: "mutate_each (mut_rate params) cs g1 = Some (Inr (ys, g'))"
    and ys: "list_all2 mutant_of cs ys" and fair: "fair_bytes (u8_src g')" by auto
  from ys cs obtain c1 c2 where ys': "ys = [c1, c2]" and mu: "mutant_of a c1" "mutant_of b c2"
    by (auto simp: list_all2_Cons1)
  have "mate self other params g = Some (Inr ([c1, c2], g'))"
    using x m ys' by (simp add: mate_def)
  moreover have "genome_ok c1" "genome_ok c2"
    using ok cs mu by (auto intro: mutant_of_genome_ok)
  ultimately show ?thesis
    using ab mu fair by (auto simp: mutant_of_len mutant_of_fitness)
qed

text \<open>
  Claim C12. Mating two genomes that are not empty and hold ASCII genes, with a
  supply of bytes that never runs out of printable bytes, returns two children
  that are again not empty and ASCII, conserve the total length and have no
  cached fitness; the supply left over still never runs out.
\<close>

theorem mate_ok:
  assumes "genome_ok self" and "genome_ok other" and "fair_bytes (u8_src g)"
  shows "\<exists>c1 c2 g'. mate self other params g = Some (Inr ([c1, c2], g')) \<and>
           genome_ok c1 \<and> genome_ok c2 \<and> len c1 + len c2 = len self + len other \<and>
           fitness c1 = None \<and> fitness c2 = None \<and> fair_bytes (u8_src g')"
  using assms by (rule mate_returns)

lemma mutate_same:
  assumes "mutate self g = Some (Inr (y, g'))"
  shows "fitness y = fitness self" and "len y = len self"
  using assms
  by (auto simp: mutate_def split_def Let_def len_def split: if_splits option.splits)

lemma mutate_each_same:
  "mutate_each rate cs g = Some (Inr (ys, g')) \<Longrightarrow>
   list_all2 (\<lambda>c y. fitness y = fitness c \<and> len y = len c) cs ys"
proof (induction cs arbitrary: g ys)
  case Nil
  then show ?case by simp
next
  case (Cons c cs)
  from Cons.prems obtain y g1 zs where
    y: "(if fst (gen_f32 g) < rate then mutate c (snd (gen_f32 g)) else Some (Inr (c, snd (gen_f32 g))))
        = Some (Inr (y, g1))"
    and zs: "mutate_each rate cs g1 = Some (Inr (zs, g'))" and ys: "ys = y # zs"
    by (auto simp: split_def Let_def split: option.splits sum.splits)
  from y have "fitness y = fitness c \<and> len y = len c"
    by (auto split: if_splits dest: mutate_same)
  with Cons.IH [OF zs] ys show ?case by simp
qed

lemma mate_Inr:
  assumes "mate self other params g = Some (Inr (cs, g'))"
  shows "\<exists>c1 c2. cs = [c1, c2] \<and> fitness c1 = None \<and> fitness c2 = None \<and>
           len c1 + len c2 = len self + len other \<and> 0 < len c1 \<and> 0 < len c2"
proof -
  from assms obtain xs g1 where x: "crossover self other g = Inr (xs, g1)"
    and m: "mutate_each (mut_rate params) xs g1 = Some (Inr (cs, g'))"
    by (auto simp: mate_def split: sum.splits)
  from x obtain a b where xs: "xs = [a, b]" and ab: "fitness a = None" "fitness b = None"
    "len a + len b = len self + len other" "0 < len a" "0 < len b"
    by (rule crossover_Inr) (simp add: len_def)
  from mutate_each_same [OF m] xs ab show ?thesis
    by (auto simp: list_all2_Cons1)
qed

lemma mate_empty:
  "len self = 0 \<or> len other = 0 \<Longrightarrow> mate self other params g = Some (Inl RemainderByZero)"
  by (simp add: mate_def crossover_empty)

text \<open>
  \<open>score_mut\<close> is memoised and never panics: a genome without a cached
  fitness gets the edit distance between its genes and the target, and a genome
  with a cached fitness keeps it, whatever its genes are.
\<close>

theorem score_mut_eq:
  "score_mut self params =
     (case fitness self of
        None \<Rightarrow> Inr (levenshtein (genes self) (target params),
                    self\<lparr>fitness := Some (levenshtein (genes self) (target params))\<rparr>)
      | Some f \<Rightarrow> Inr (f, self))"
  by (simp add: score_mut_def split: option.splits)

lemma random_genes_length: "length (fst (random_genes n g)) = n"
  by (induction n arbitrary: g) (simp_all add: split_def Let_def)

lemma random_genes_ascii: "is_ascii (fst (random_genes n g))"
  by (induction n arbitrary: g) (simp_all add: split_def Let_def is_ascii_def sample_alphanumeric_ascii)

lemma random_genes_alnum: "set (fst (random_genes n g)) \<subseteq> set alphanumeric_charset"
  by (induction n arbitrary: g) (simp_all add: split_def Let_def sample_alphanumeric_in_charset)

lemma random_genes_u8_src [simp]: "u8_src (snd (random_genes n g)) = u8_src g"
  by (induction n arbitrary: g) (simp_all add: split_def Let_def sample_alphanumeric_def)

text \<open>
  A new genome has the length asked for, alphanumeric genes and no
  cached fitness.
\<close>

theorem genome_new_props:
  "len (fst (genome_new n g)) = unat n \<and> fitness (fst (genome_new n g)) = None \<and>
   set (genes (fst (genome_new n g))) \<subseteq> set alphanumeric_charset"
  by (simp add: genome_new_def split_def Let_def len_def random_genes_length random_genes_alnum)

lemma genome_new_ok: "n \<noteq> 0 \<Longrightarrow> genome_ok (fst (genome_new n g))"
proof -
  assume "n \<noteq> 0"
  then have "0 < length (fst (random_genes (unat n) g))"
    by (simp add: random_genes_length unat_gt_0)
  then show ?thesis
    by (simp add: genome_new_def split_def Let_def genome_ok_def random_genes_ascii)
qed

text \<open>
  \<open>assert_invariants\<close> computes \<open>num_offspring + 2\<close> in \<open>usize\<close>: with overflow
  checks the sum panics when it passes \<open>2 ^ 64\<close>; otherwise the assertion
  compares the sum, wrapped around, with the tournament size. So the assertion
  says that the tournament has room for the offspring and two parents whenever
  the sum is checked or does not wrap around.
\<close>

lemma assert_invariants_eq:
  "assert_invariants oc c =
     (if oc \<and> 2 ^ 64 \<le> unat (num_offspring c) + 2 then Inl ArithmeticOverflow
      else if num_offspring c + 2 \<le> tournament_size c then Inr ()
      else Inl AssertionFailed)"
  by (simp add: assert_invariants_def add_oc_def)

lemma assert_invariants_checked:
  "assert_invariants True c = Inr () \<longleftrightarrow> unat (num_offspring c) + 2 \<le> unat (tournament_size c)"
proof (cases "2 ^ 64 \<le> unat (num_offspring c) + 2")
  case True
  moreover have "unat (tournament_size c) < 2 ^ 64"
    using unat_less_u64 [of "tournament_size c"] by simp
  ultimately show ?thesis by (simp add: assert_invariants_def add_oc_def)
next
  case False
  then have "unat (num_offspring c + 2) = unat (num_offspring c) + 2"
    using add_oc_in_range(2) [of "num_offspring c" 2] by simp
  with False show ?thesis
    by (simp add: assert_invariants_def add_oc_def word_le_nat_alt)
qed

lemma assert_invariants_iff:
  assumes "oc \<or> unat (num_offspring c) + 2 < 2 ^ 64"
  shows "assert_invariants oc c = Inr () \<longleftrightarrow>
     unat (num_offspring c) + 2 \<le> unat (tournament_size c)"
proof (cases "unat (num_offspring c) + 2 < 2 ^ 64")
  case True
  then have "unat (num_offspring c + 2) = unat (num_offspring c) + 2"
    using add_oc_in_range(2) [of "num_offspring c" 2] by simp
  with True show ?thesis
    by (simp add: assert_invariants_def add_oc_def word_le_nat_alt)
next
  case False
  with assms have oc by simp
  then show ?thesis by (simp add: assert_invariants_checked)
qed

subsection \<open>Instances\<close>

lemmas example_defs = example_config_def example_rng_def

theorem crossover_conserves_length_witness:
  "\<exists>c1 c2. [\<lparr>genes = ''HELLDS'', fitness = None\<rparr>, \<lparr>genes = ''LOWOR'', fitness = None\<rparr>] = [c1, c2] \<and>
     len c1 + len c2 = len \<lparr>genes = ''HELLO'', fitness = Some 1\<rparr> + len \<lparr>genes = ''WORLDS'', fitness = None\<rparr> \<and>
     0 < len c1 \<and> 0 < len c2 \<and> fitness c1 = None \<and> fitness c2 = None"
proof -
  have "crossover \<lparr>genes = ''HELLO'', fitness = Some 1\<rparr> \<lparr>genes = ''WORLDS'', fitness = None\<rparr> example_rng =
      Inr ([\<lparr>genes = ''HELLDS'', fitness = None\<rparr>, \<lparr>genes = ''LOWOR'', fitness = None\<rparr>],
           example_rng\<lparr>usize_src := sconst 3\<rparr>)"
    by (simp add: crossover_eq example_rng_def len_def split_at_def is_char_boundary_def
        is_continuation_def)
  from crossover_conserves_length [OF this] show ?thesis .
qed

theorem mutate_returns_witness:
  "\<exists>n. mutate \<lparr>genes = ''HELLO'', fitness = Some 1\<rparr> example_rng =
      Some (Inr (\<lparr>genes = ''HELLO'', fitness = Some 1\<rparr>
                   \<lparr>genes := ''HELLO''[3 := u8_src example_rng !! n]\<rparr>,
                 example_rng\<lparr>usize_src := sconst 3, u8_src := sdrop (Suc n) (u8_src example_rng)\<rparr>))
    \<and> printable (u8_src example_rng !! n)"
proof -
  have "0 < len \<lparr>genes = ''HELLO'', fitness = Some 1\<rparr>"
    by (simp add: len_def)
  moreover have "printable (u8_src example_rng !! Suc (Suc 0))"
    by (simp add: example_rng_def printable_def)
  ultimately show ?thesis
    using mutate_returns [of "\<lparr>genes = ''HELLO'', fitness = Some 1\<rparr>" example_rng "Suc (Suc 0)"]
    by (simp add: example_rng_def len_def)
qed

theorem mutate_diverges_witness:
  "mutate \<lparr>genes = ''HELLO'', fitness = None\<rparr> (example_rng\<lparr>u8_src := sconst (CHR 0x01)\<rparr>) = None"
  using mutate_diverges [of "\<lparr>genes = ''HELLO'', fitness = None\<rparr>" "example_rng\<lparr>u8_src := sconst (CHR 0x01)\<rparr>"]
  by (simp add: len_def printable_def)

theorem mate_ok_witness:
  "\<exists>c1 c2 g'. mate \<lparr>genes = ''HELLO'', fitness = Some 1\<rparr> \<lparr>genes = ''WORLDS'', fitness = None\<rparr>
        example_config example_rng = Some (Inr ([c1, c2], g')) \<and>
      genome_ok c1 \<and> genome_ok c2 \<and>
      len c1 + len c2 = len \<lparr>genes = ''HELLO'', fitness = Some 1\<rparr> + len \<lparr>genes = ''WORLDS'', fitness = None\<rparr> \<and>
      fitness c1 = None \<and> fitness c2 = None \<and> fair_bytes (u8_src g')"
proof -
  have "genome_ok \<lparr>genes = ''HELLO'', fitness = Some 1\<rparr>" "genome_ok \<lparr>genes = ''WORLDS'', fitness = None\<rparr>"
    by (simp_all add: genome_ok_def is_ascii_def)
  moreover have "fair_bytes (u8_src example_rng)"
    by (simp add: example_rng_def fair_bytes_sconst [of _ "[CHR 0x01, CHR 0xC8]", simplified] printable_def)
  ultimately show ?thesis by (rule mate_ok)
qed

text \<open>
  A tournament of 3 with 2 offspring is rejected by \<open>assert_invariants\<close>
  in every build profile.
\<close>

theorem assert_invariants_rejects:
  "assert_invariants oc (example_config\<lparr>tournament_size := 3\<rparr>) = Inl AssertionFailed"
  by (simp add: assert_invariants_def add_oc_def example_config_def)

text \<open>
  Built without overflow checks, \<open>assert_invariants\<close> accepts a
  configuration with a tournament of size 0 and \<open>2 ^ 64 - 2\<close> offspring: the sum
  \<open>num_offspring + 2\<close> wraps around to 0.
\<close>

theorem assert_invariants_wraps:
  "assert_invariants False (example_config\<lparr>tournament_size := 0, num_offspring := - 2\<rparr>) = Inr ()"
  by (simp add: assert_invariants_def add_oc_def example_config_def)

text \<open>
  \<open>mutate\<close> changes the genes and keeps the cached fitness and the length.
\<close>

theorem mutate_keeps_fitness:
  "mutate self g = Some (Inr (y, g')) \<Longrightarrow> fitness y = fitness self \<and> len y = len self"
  by (auto simp: mutate_def split_def Let_def len_def split: if_splits option.splits)

theorem mutate_keeps_fitness_witness:
  "fitness \<lparr>genes = ''HELHO'', fitness = Some 0\<rparr> = fitness \<lparr>genes = ''HELLO'', fitness = Some 0\<rparr> \<and>
   len \<lparr>genes = ''HELHO'', fitness = Some 0\<rparr> = len \<lparr>genes = ''HELLO'', fitness = Some 0\<rparr>"
proof -
  have "mutate \<lparr>genes = ''HELLO'', fitness = Some 0\<rparr> example_rng =
      Some (Inr (\<lparr>genes = ''HELHO'', fitness = Some 0\<rparr>,
                 example_rng\<lparr>usize_src := sconst 3, u8_src := sconst CHR ''H''\<rparr>))"
    by (simp add: example_rng_def mutate_def gen_usize_def len_def mutate_loop.simps)
  from mutate_keeps_fitness [OF this] show ?thesis .
qed

end
