(* ===== verification/Observation.thy ===== *)
theory Observation
  imports Genome
begin

text \<open>
  The observer of the tournament example, \<open>src/examples/hello_world.rs\<close>, lines
  321 to 398.

  The observer is a thread that owns a \<open>window\<close>, a ring buffer of the genomes
  observed last, and receives the genomes over a channel. The thread is either
  running with its window or dead, because it panicked; \<open>observe\<close> is the send on
  the channel together with what the thread then does with the genome. What the
  thread logs is returned as a list of \<open>log_event\<close>s.

  The theory proves that a window made by \<open>window_new\<close> keeps its index inside the
  frame, so that \<open>window_insert\<close> can only panic in the sum of \<open>report\<close>, and that the
  ring buffer implements a sliding window: \<open>recent\<close> lists the frame from the
  newest entry to the oldest, and an insertion puts the new genome in front and
  drops the oldest.
\<close>

subsection \<open>Log events\<close>

datatype log_event =
    LogPopulationEmpty
  | LogNewChamp usize genome
  | LogAverageFitness fp

subsection \<open>The window\<close>

record window =
  frame :: "genome option list"
  w_i :: usize
  window_size :: usize

definition report :: "bool \<Rightarrow> window \<Rightarrow> fp result" where
  "report oc self =
     (let fitnesses = List.map_filter (\<lambda>t. Option.bind t fitness) (frame self) in
      and_then (sum_usize oc fitnesses)
        (\<lambda>total. Inr (fp_div (fp_of_nat total) (fp_of_nat (length fitnesses)))))"

definition window_insert :: "bool \<Rightarrow> window \<Rightarrow> genome \<Rightarrow> (window \<times> log_event list) result" where
  "window_insert oc self thing =
     and_then (add_oc oc (w_i self) 1) (\<lambda>n.
     and_then (rem_chk n (window.window_size self)) (\<lambda>i'.
     and_then (vec_set (frame self) (unat i') (Some thing)) (\<lambda>fr.
       let self' = self\<lparr>w_i := i', frame := fr\<rparr> in
       if i' = 0
       then and_then (report oc self') (\<lambda>avg. Inr (self', [LogAverageFitness avg]))
       else Inr (self', []))))"

definition window_new :: "usize \<Rightarrow> window result" where
  "window_new n =
     (if 0 < n
      then Inr \<lparr>frame = replicate (unat n) None, w_i = 0, window_size = n\<rparr>
      else Inl AssertionFailed)"

subsection \<open>The observer thread\<close>

datatype observer = Running window | Dead

definition observer_spawn :: "config \<Rightarrow> observer" where
  "observer_spawn params =
     (case window_new (observer_config.window_size (config.observer params)) of
        Inl p \<Rightarrow> Dead
      | Inr w \<Rightarrow> Running w)"

text \<open>
  The result of \<open>observe\<close> is the result of the send: \<open>Inl\<close> with the genome that
  could not be sent, or \<open>Inr ()\<close>.
\<close>

definition observe :: "bool \<Rightarrow> observer \<Rightarrow> genome \<Rightarrow> (genome + unit) \<times> observer \<times> log_event list" where
  "observe oc self ob =
     (case self of
        Dead \<Rightarrow> (Inl ob, Dead, [])
      | Running w \<Rightarrow>
          (case window_insert oc w ob of
             Inl p \<Rightarrow> (Inr (), Dead, [])
           | Inr (w', logs) \<Rightarrow> (Inr (), Running w', logs)))"

text \<open>The trait method \<open>report\<close> of the observer is not implemented: it panics.\<close>

definition observer_report :: "unit result" where
  "observer_report = Inl Unimplemented"

subsection \<open>Specification level\<close>

text \<open>
  The invariant of a window, the frame listed from the newest entry to the oldest,
  and the insertion of a list of genomes.
\<close>

definition window_ok :: "window \<Rightarrow> bool" where
  "window_ok w \<longleftrightarrow>
     w_i w < window.window_size w \<and> length (frame w) = unat (window.window_size w)"

definition recent :: "window \<Rightarrow> genome option list" where
  "recent w =
     rev (take (unat (w_i w) + 1) (frame w)) @ rev (drop (unat (w_i w) + 1) (frame w))"

definition observer_ok :: "observer \<Rightarrow> bool" where
  "observer_ok obs \<longleftrightarrow> (case obs of Running w \<Rightarrow> window_ok w | Dead \<Rightarrow> True)"

fun window_run :: "bool \<Rightarrow> window \<Rightarrow> genome list \<Rightarrow> (window \<times> log_event list) result" where
  "window_run oc w [] = Inr (w, [])"
| "window_run oc w (x # xs) =
     and_then (window_insert oc w x) (\<lambda>(w', logs).
     and_then (window_run oc w' xs) (\<lambda>(w'', logs'). Inr (w'', logs @ logs')))"

text \<open>A window of three slots and two genomes for the examples.\<close>

definition example_window :: window where
  "example_window = \<lparr>frame = [None, None, None], w_i = 0, window_size = 3\<rparr>"

definition genome_a :: genome where
  "genome_a = \<lparr>genes = ''HELLA'', fitness = Some 1\<rparr>"

definition genome_b :: genome where
  "genome_b = \<lparr>genes = ''JELLY'', fitness = Some 2\<rparr>"

subsection \<open>The window keeps its index inside the frame\<close>

lemma window_new_eq_Inr:
  "0 < n \<Longrightarrow> window_new n = Inr \<lparr>frame = replicate (unat n) None, w_i = 0, window_size = n\<rparr>"
  by (simp add: window_new_def)

lemma window_new_zero [simp]: "window_new 0 = Inl AssertionFailed"
  by (simp add: window_new_def)

lemma recent_replicate: "frame w = replicate n v \<Longrightarrow> recent w = replicate n v"
proof -
  have "min k n + (n - k) = n" for k by arith
  then show "frame w = replicate n v \<Longrightarrow> recent w = replicate n v"
    by (simp add: recent_def flip: replicate_add)
qed

lemma window_new_ok: "window_new n = Inr w \<Longrightarrow> window_ok w \<and> recent w = replicate (unat n) None"
  by (auto simp: window_new_def window_ok_def recent_replicate split: if_splits)

lemma window_next_index:
  assumes "window_ok w"
  shows "add_oc oc (w_i w) 1 = Inr (w_i w + 1)"
    and "rem_chk (w_i w + 1) (window.window_size w) = Inr ((w_i w + 1) mod window.window_size w)"
    and "unat ((w_i w + 1) mod window.window_size w)
           = (unat (w_i w) + 1) mod unat (window.window_size w)"
    and "unat ((w_i w + 1) mod window.window_size w) < length (frame w)"
proof -
  from assms have lt: "unat (w_i w) < unat (window.window_size w)"
    by (simp add: window_ok_def word_less_nat_alt)
  have "unat (window.window_size w) < 2 ^ 64"
    using unat_less_u64 [of "window.window_size w"] by simp
  with lt have fits: "unat (w_i w) + unat (1 :: usize) < 2 ^ LENGTH(64)" by simp
  from add_oc_in_range [OF fits] show "add_oc oc (w_i w) 1 = Inr (w_i w + 1)" by simp
  from add_oc_in_range(2) [OF fits] have u: "unat (w_i w + 1) = unat (w_i w) + 1" by simp
  from lt have nz: "window.window_size w \<noteq> 0" by (auto simp: unat_gt_0 [symmetric])
  then show "rem_chk (w_i w + 1) (window.window_size w)
      = Inr ((w_i w + 1) mod window.window_size w)"
    by (rule rem_chk_pos)
  show "unat ((w_i w + 1) mod window.window_size w)
      = (unat (w_i w) + 1) mod unat (window.window_size w)"
    by (simp add: unat_mod u)
  from nz assms show "unat ((w_i w + 1) mod window.window_size w) < length (frame w)"
    by (simp add: window_ok_def unat_rem_less)
qed

lemma window_insert_eq:
  assumes "window_ok w"
  shows "window_insert oc w x =
     (let i' = (w_i w + 1) mod window.window_size w;
          w' = w\<lparr>w_i := i', frame := (frame w)[unat i' := Some x]\<rparr>
      in if i' = 0
         then and_then (report oc w') (\<lambda>avg. Inr (w', [LogAverageFitness avg]))
         else Inr (w', []))"
  using window_next_index(1) [OF assms, of oc] window_next_index(2,4) [OF assms]
  by (simp add: window_insert_def Let_def)

lemma window_insert_ok:
  assumes "window_ok w" and "window_insert oc w x = Inr (w', logs)"
  shows "window_ok w'" and "recent w' = Some x # butlast (recent w)"
    and "window.window_size w' = window.window_size w"
proof -
  let ?i' = "(w_i w + 1) mod window.window_size w"
  from assms have w': "w' = w\<lparr>w_i := ?i', frame := (frame w)[unat ?i' := Some x]\<rparr>"
    by (auto simp: window_insert_eq Let_def and_then_eq_Inr_iff split: if_splits)
  from assms(1) have i: "unat (w_i w) < length (frame w)"
    by (simp add: window_ok_def word_less_nat_alt)
  have u: "unat ?i' = Suc (unat (w_i w)) mod length (frame w)"
    using window_next_index(3) [OF assms(1)] assms(1) by (simp add: window_ok_def)
  have "unat ?i' < unat (window.window_size w)"
    using window_next_index(4) [OF assms(1)] assms(1) by (simp add: window_ok_def)
  then have "window_ok w'"
    using assms(1) by (simp add: w' window_ok_def word_less_nat_alt)
  moreover have "recent w' = Some x # butlast (recent w)"
    using ring_insert_recent [OF i, of "Some x"] by (simp add: w' recent_def u)
  ultimately show "window_ok w'" and "recent w' = Some x # butlast (recent w)"
    and "window.window_size w' = window.window_size w" by (simp_all add: w')
qed

text \<open>
  The ring buffer implements a sliding window: an insertion into a window
  that satisfies the invariant keeps the invariant and the size, puts the new
  genome in front of the entries listed from newest to oldest and drops the
  oldest entry.
\<close>

theorem window_insert_recent:
  assumes "window_ok w" and "window_insert oc w x = Inr (w', logs)"
  shows "window_ok w' \<and> recent w' = Some x # butlast (recent w) \<and>
         window.window_size w' = window.window_size w"
  using window_insert_ok [OF assms] by simp

lemma length_recent [simp]: "length (recent w) = length (frame w)"
  by (simp add: recent_def)

lemma mset_recent [simp]: "mset (recent w) = mset (frame w)"
proof -
  have "mset (take k xs) + mset (drop k xs) = mset xs" for k and xs :: "genome option list"
    by (metis append_take_drop_id mset_append)
  then show ?thesis by (simp add: recent_def)
qed

lemma set_recent [simp]: "set (recent w) = set (frame w)"
  by (metis mset_recent set_mset_mset)

lemma report_unchecked: "\<exists>avg. report False w = Inr avg"
  by (simp add: report_def sum_usize_def Let_def)

lemma report_Inl: "report oc w = Inl p \<Longrightarrow> oc \<and> p = ArithmeticOverflow"
  by (auto simp: report_def sum_usize_def Let_def and_then_eq_Inl_iff split: if_splits)

lemma window_insert_unchecked:
  "window_ok w \<Longrightarrow> \<exists>w' logs. window_insert False w x = Inr (w', logs)"
  using report_unchecked
  by (cases "window_insert False w x")
    (auto simp: window_insert_eq Let_def and_then_eq_Inl_iff split: if_splits dest: report_Inl)

text \<open>
  An insertion into a window that satisfies the invariant never fails
  with an index out of bounds or a remainder by zero: its only panic is the
  overflow of the sum of the fitnesses in \<open>report\<close>, when built with overflow
  checks.
\<close>

theorem window_insert_Inl:
  "window_ok w \<Longrightarrow> window_insert oc w x = Inl p \<Longrightarrow> oc \<and> p = ArithmeticOverflow"
  by (auto simp: window_insert_eq Let_def and_then_eq_Inl_iff split: if_splits dest: report_Inl)

lemma window_run_ok:
  assumes "window_ok w" and "window_run oc w xs = Inr (w', logs)"
  shows "window_ok w' \<and> window.window_size w' = window.window_size w \<and>
         recent w' = take (length (frame w)) (map Some (rev xs) @ recent w)"
  using assms
proof (induction xs arbitrary: w logs)
  case Nil
  then show ?case by simp
next
  case (Cons x xs)
  from Cons.prems(2) obtain w1 l1 l2 where
    one: "window_insert oc w x = Inr (w1, l1)" and rest: "window_run oc w1 xs = Inr (w', l2)"
    by (auto simp: and_then_eq_Inr_iff)
  from window_insert_ok [OF Cons.prems(1) one] have
    w1: "window_ok w1" "recent w1 = Some x # butlast (recent w)"
      "window.window_size w1 = window.window_size w" by simp_all
  then have len: "length (frame w1) = length (frame w)"
    using Cons.prems(1) by (simp add: window_ok_def)
  from Cons.IH [OF w1(1) rest] have
    IH: "window_ok w'" "window.window_size w' = window.window_size w1"
      "recent w' = take (length (frame w1)) (map Some (rev xs) @ recent w1)" by simp_all
  have "take (length (frame w)) ((map Some (rev xs) @ [Some x]) @ butlast (recent w))
      = take (length (frame w)) ((map Some (rev xs) @ [Some x]) @ recent w)"
    by (rule take_append_butlast) simp_all
  with IH w1 len show ?case by simp
qed

text \<open>
  Claim C8. After a list of genomes has been inserted, the window holds the
  genomes inserted last, newest first, as many as the frame has slots, followed
  by what is left of its earlier content.
\<close>

theorem window_run_sliding:
  assumes "window_ok w" and "window_run oc w xs = Inr (w', logs)"
  shows "window_ok w' \<and> window.window_size w' = window.window_size w \<and>
         recent w' = take (length (frame w)) (map Some (rev xs) @ recent w)"
  using assms by (rule window_run_ok)

lemma window_insert_index:
  assumes "window_ok w" and "window_insert oc w x = Inr (w', logs)"
  shows "unat (w_i w') = Suc (unat (w_i w)) mod length (frame w) \<and>
         length logs = Suc (unat (w_i w)) div length (frame w)"
proof -
  let ?i' = "(w_i w + 1) mod window.window_size w"
  let ?n = "length (frame w)"
  from assms(1) have i: "unat (w_i w) < ?n"
    by (simp add: window_ok_def word_less_nat_alt)
  have u: "unat ?i' = Suc (unat (w_i w)) mod ?n"
    using window_next_index(3) [OF assms(1)] assms(1) by (simp add: window_ok_def)
  have z: "?i' = 0 \<longleftrightarrow> Suc (unat (w_i w)) mod ?n = 0"
    using u by (metis unat_eq_zero)
  have d: "Suc (unat (w_i w)) div ?n = (if Suc (unat (w_i w)) mod ?n = 0 then 1 else 0)"
  proof (cases "Suc (unat (w_i w)) = ?n")
    case True
    from i have "0 < ?n" by linarith
    with True show ?thesis by simp
  next
    case False
    with i have "Suc (unat (w_i w)) < ?n" by simp
    then show ?thesis by simp
  qed
  from assms have "w_i w' = ?i'" "length logs = (if ?i' = 0 then 1 else 0)"
    by (auto simp: window_insert_eq Let_def and_then_eq_Inr_iff split: if_splits)
  with u z d show ?thesis by simp
qed

text \<open>
  The index of the window advances by one for each insertion, modulo the
  size of the frame, and the window reports once for each time the index wraps
  to zero.
\<close>

theorem window_run_index:
  assumes "window_ok w" and "window_run oc w xs = Inr (w', logs)"
  shows "unat (w_i w') = (unat (w_i w) + length xs) mod length (frame w) \<and>
         length logs = (unat (w_i w) + length xs) div length (frame w)"
  using assms
proof (induction xs arbitrary: w logs)
  case Nil
  then show ?case by (simp add: window_ok_def word_less_nat_alt)
next
  case (Cons x xs)
  let ?n = "length (frame w)"
  from Cons.prems(2) obtain w1 l1 l2 where
    one: "window_insert oc w x = Inr (w1, l1)" and rest: "window_run oc w1 xs = Inr (w', l2)"
    and logs: "logs = l1 @ l2"
    by (auto simp: and_then_eq_Inr_iff)
  from window_insert_ok [OF Cons.prems(1) one] have w1: "window_ok w1"
    and "window.window_size w1 = window.window_size w" by simp_all
  then have len: "length (frame w1) = ?n"
    using Cons.prems(1) by (simp add: window_ok_def)
  from window_insert_index [OF Cons.prems(1) one] have
    i1: "unat (w_i w1) = Suc (unat (w_i w)) mod ?n" "length l1 = Suc (unat (w_i w)) div ?n"
    by simp_all
  from Cons.IH [OF w1 rest] have
    IH: "unat (w_i w') = (unat (w_i w1) + length xs) mod ?n"
      "length l2 = (unat (w_i w1) + length xs) div ?n"
    by (simp_all add: len)
  have "(Suc (unat (w_i w)) mod ?n + length xs) mod ?n = (unat (w_i w) + length (x # xs)) mod ?n"
    by (simp add: mod_add_left_eq)
  moreover have "Suc (unat (w_i w)) div ?n + (Suc (unat (w_i w)) mod ?n + length xs) div ?n
      = (unat (w_i w) + length (x # xs)) div ?n"
    using div_add1_eq [of "Suc (unat (w_i w))" "length xs" ?n]
    by (simp add: div_add1_eq [of "Suc (unat (w_i w)) mod ?n" "length xs" ?n] add.assoc)
  ultimately show ?case
    using IH i1 logs by simp
qed

lemma map_filter_Some_fitness:
  "list_all (\<lambda>g. fitness g \<noteq> None) gs \<Longrightarrow>
   List.map_filter (\<lambda>t. Option.bind t fitness) (map Some gs) = map (\<lambda>g. the (fitness g)) gs"
  by (induction gs) auto

text \<open>
  For a window whose slots all hold scored genomes, \<open>report\<close> is the sum
  of their fitnesses divided by their number.
\<close>

theorem report_full:
  assumes "frame w = map Some gs" and "list_all (\<lambda>g. fitness g \<noteq> None) gs" and "gs \<noteq> []"
    and "(\<Sum>g\<leftarrow>gs. the (fitness g)) < 2 ^ 64"
  shows "report oc w = Inr (Fin (real (\<Sum>g\<leftarrow>gs. the (fitness g)) / real (length gs)))"
  using assms by (simp add: report_def map_filter_Some_fitness sum_usize_def fp_div_of_nat)

lemma map_filter_replicate_None: "List.map_filter (\<lambda>t. Option.bind t f) (replicate n None) = []"
  by (induction n) simp_all

lemma report_empty: "frame w = replicate n None \<Longrightarrow> report oc w = Inr NaN"
  by (simp add: report_def sum_usize_def fp_div_of_nat map_filter_replicate_None)

text \<open>
  Claim C38. With a window size of 0 the observer thread fails the assertion of
  \<open>window_new\<close> when it starts: the observer is dead from the start.
\<close>

theorem observer_spawn_zero:
  "observer_config.window_size (config.observer params) = 0 \<Longrightarrow> observer_spawn params = Dead"
  by (simp add: observer_spawn_def window_new_def)

lemma observer_spawn_pos:
  "observer_config.window_size (config.observer params) \<noteq> 0 \<Longrightarrow>
   \<exists>w. observer_spawn params = Running w \<and> window_ok w"
  using window_new_ok [of "observer_config.window_size (config.observer params)"]
  by (auto simp: observer_spawn_def window_new_def word_greater_zero_iff)

lemma observer_spawn_ok [simp]: "observer_ok (observer_spawn params)"
proof (cases "observer_config.window_size (config.observer params) = 0")
  case True
  then show ?thesis by (simp add: observer_spawn_def window_new_def observer_ok_def)
next
  case False
  from observer_spawn_pos [OF this] show ?thesis by (auto simp: observer_ok_def)
qed

lemma observe_Dead [simp]: "observe oc Dead ob = (Inl ob, Dead, [])"
  by (simp add: observe_def)

lemma observe_ok: "observer_ok obs \<Longrightarrow> observer_ok (fst (snd (observe oc obs ob)))"
  by (auto simp: observe_def observer_ok_def split: observer.splits sum.splits
      dest: window_insert_ok)

lemma observe_unchecked:
  "window_ok w \<Longrightarrow> \<exists>w' logs. observe False (Running w) ob = (Inr (), Running w', logs) \<and> window_ok w'"
  using window_insert_unchecked [of w ob]
  by (auto simp: observe_def dest: window_insert_ok)


subsection \<open>Instances\<close>

lemmas window_eval =
  window_insert_def add_oc_def rem_chk_def vec_set_def report_def sum_usize_def fp_div_of_nat
  example_window_def genome_a_def genome_b_def

lemma example_window_ok: "window_ok example_window"
  by (simp add: example_window_def window_ok_def)

theorem window_insert_recent_witness:
  "window_ok (example_window\<lparr>w_i := 1, frame := [None, Some genome_a, None]\<rparr>) \<and>
   recent (example_window\<lparr>w_i := 1, frame := [None, Some genome_a, None]\<rparr>)
     = Some genome_a # butlast (recent example_window)"
proof -
  have "window_insert True example_window genome_a
      = Inr (example_window\<lparr>w_i := 1, frame := [None, Some genome_a, None]\<rparr>, [])"
    by (simp add: window_eval)
  from window_insert_recent [OF example_window_ok this] show ?thesis by simp
qed

lemma example_window_run:
  "window_run True example_window [genome_a, genome_b, genome_a]
     = Inr (example_window\<lparr>frame := [Some genome_a, Some genome_a, Some genome_b]\<rparr>,
            [LogAverageFitness (Fin (4 / 3))])"
  by (simp add: window_eval)

theorem window_run_sliding_witness:
  "recent (example_window\<lparr>frame := [Some genome_a, Some genome_a, Some genome_b]\<rparr>)
     = [Some genome_a, Some genome_b, Some genome_a]"
  using window_run_sliding [OF example_window_ok example_window_run]
  by (simp add: example_window_def recent_def)

theorem window_run_index_witness:
  "unat (w_i (example_window\<lparr>frame := [Some genome_a, Some genome_a, Some genome_b]\<rparr>)) = 0 \<and>
   length [LogAverageFitness (Fin (4 / 3))] = 1"
  using window_run_index [OF example_window_ok example_window_run]
  by (simp add: example_window_def)

theorem window_insert_Inl_witness:
  "window_insert True
     \<lparr>frame = [None, Some \<lparr>genes = ''A'', fitness = Some (2 ^ 63)\<rparr>], w_i = 1, window_size = 2\<rparr>
     \<lparr>genes = ''B'', fitness = Some (2 ^ 63)\<rparr> = Inl ArithmeticOverflow"
proof -
  let ?w = "\<lparr>frame = [None, Some \<lparr>genes = ''A'', fitness = Some (2 ^ 63)\<rparr>], w_i = 1, window_size = 2\<rparr>"
  have ok: "window_ok ?w" by (simp add: window_ok_def)
  obtain p where p: "window_insert True ?w \<lparr>genes = ''B'', fitness = Some (2 ^ 63)\<rparr> = Inl p"
    by (simp add: window_insert_def add_oc_def rem_chk_def vec_set_def report_def sum_usize_def)
  from window_insert_Inl [OF ok p] p show ?thesis by simp
qed

theorem report_full_witness:
  "report True (example_window\<lparr>frame := [Some genome_a, Some genome_a, Some genome_b]\<rparr>)
     = Inr (Fin (4 / 3))"
  using report_full [of "example_window\<lparr>frame := [Some genome_a, Some genome_a, Some genome_b]\<rparr>"
      "[genome_a, genome_a, genome_b]" True]
  by (simp add: genome_a_def genome_b_def)

theorem observer_spawn_zero_witness:
  "observer_spawn (example_config\<lparr>observer := \<lparr>observer_config.window_size = 0\<rparr>\<rparr>) = Dead \<and>
   observe True (observer_spawn (example_config\<lparr>observer := \<lparr>observer_config.window_size = 0\<rparr>\<rparr>)) genome_a
     = (Inl genome_a, Dead, [])"
  using observer_spawn_zero [of "example_config\<lparr>observer := \<lparr>observer_config.window_size = 0\<rparr>\<rparr>"]
  by simp

end
