(* ===== verification/Tournament.thy ===== *)
theory Tournament
  imports Observation
begin

text \<open>
  The generation loop of the tournament example, \<open>src/examples/hello_world.rs\<close>,
  lines 125 to 319: the epoch, the evaluator thread, one generation (\<open>evolve\<close>)
  and the loop over generations (\<open>run\<close>).

  \<open>evolve\<close> reads and writes what surrounds the epoch: the random number
  generator of the thread, the observer and the evaluator threads, and the log.
  These are the fields of \<open>env\<close>, together with the build profile
  (\<open>overflow_checks\<close>). The evaluator is a thread that scores the genomes it
  receives over a channel and sends them back; \<open>evaluate\<close> is the round trip, which
  panics when the thread is gone (\<open>worker_alive\<close>).

  \<open>evolve\<close> returns \<open>None\<close> when the mutation of a child does not return,
  \<open>Some (Inl p)\<close> when it panics and \<open>Some (Inr (epoch, env))\<close> otherwise; \<open>run\<close>
  likewise, and \<open>None\<close> also when no generation ever finds a genome of fitness 0.

  The relation \<open>generations\<close> steps from one epoch to the next; the theory
  proves by rule induction that valid epochs stay valid, and that the loop of
  \<open>run\<close> returns exactly when a solved epoch is reached.
\<close>

subsection \<open>The evaluator thread\<close>

record evaluator =
  eval_target :: string
  worker_alive :: bool

definition evaluator_spawn :: "config \<Rightarrow> evaluator" where
  "evaluator_spawn params = \<lparr>eval_target = target params, worker_alive = True\<rparr>"

definition worker_score :: "string \<Rightarrow> genome \<Rightarrow> genome" where
  "worker_score t g =
     (if fitness g = None then g\<lparr>fitness := Some (levenshtein (genes g) t)\<rparr> else g)"

definition evaluate :: "evaluator \<Rightarrow> genome \<Rightarrow> genome result" where
  "evaluate self g =
     (if worker_alive self then Inr (worker_score (eval_target self) g)
      else Inl ChannelFailure)"

subsection \<open>The epoch\<close>

record epoch =
  population :: "genome list"
  config :: config
  best :: "genome option"
  iteration :: usize

fun random_population :: "nat \<Rightarrow> usize \<Rightarrow> rng \<Rightarrow> genome list \<times> rng" where
  "random_population 0 n g = ([], g)"
| "random_population (Suc k) n g =
     (let (x, g1) = genome_new n g;
          (xs, g2) = random_population k n g1
      in (x # xs, g2))"

definition epoch_new :: "config \<Rightarrow> rng \<Rightarrow> epoch \<times> rng" where
  "epoch_new cfg g =
     (let (popn, g') = random_population (unat (pop_size cfg)) (init_len cfg) g
      in (\<lparr>population = popn, config = cfg, best = None, iteration = 0\<rparr>, g'))"

definition update_best :: "epoch \<Rightarrow> genome \<Rightarrow> epoch \<times> log_event list" where
  "update_best self champ =
     (case best self of
        Some b \<Rightarrow>
          if fitter_than champ b
          then (self\<lparr>best := Some champ\<rparr>, [LogNewChamp (iteration self) champ])
          else (self, [])
      | None \<Rightarrow> (self\<lparr>best := Some champ\<rparr>, [LogNewChamp (iteration self) champ]))"

subsection \<open>One generation\<close>

record env =
  rng_state :: rng
  observer_thread :: observer
  evaluator_thread :: evaluator
  logged :: "log_event list"
  overflow_checks :: bool

fun select_combatants ::
  "nat \<Rightarrow> genome list \<Rightarrow> genome list \<Rightarrow> env \<Rightarrow> (genome list \<times> genome list \<times> env) result" where
  "select_combatants 0 popn combatants e = Inr (popn, combatants, e)"
| "select_combatants (Suc n) popn combatants e =
     (case vec_pop popn of
        None \<Rightarrow>
          select_combatants n popn combatants (e\<lparr>logged := logged e @ [LogPopulationEmpty]\<rparr>)
      | Some (combatant, popn') \<Rightarrow>
          and_then (evaluate (evaluator_thread e) combatant) (\<lambda>scored.
            let (sent, obs, logs) = observe (overflow_checks e) (observer_thread e) scored
            in select_combatants n popn' (combatants @ [scored])
                 (e\<lparr>observer_thread := obs, logged := logged e @ logs\<rparr>)))"

fun cull :: "nat \<Rightarrow> genome list \<Rightarrow> genome list" where
  "cull 0 combatants = combatants"
| "cull (Suc n) combatants = cull n (butlast combatants)"

fun requeue :: "nat \<Rightarrow> genome list \<Rightarrow> genome list \<Rightarrow> genome list \<times> genome list" where
  "requeue 0 combatants popn = (combatants, popn)"
| "requeue (Suc n) combatants popn =
     (case vec_pop combatants of
        Some (c, combatants') \<Rightarrow> requeue n combatants' (popn @ [c])
      | None \<Rightarrow> requeue n combatants popn)"

definition evolve :: "epoch \<Rightarrow> env \<Rightarrow> (epoch \<times> env) exec" where
  "evolve self e =
     (let oc = overflow_checks e;
          tsize = tournament_size (config self);
          (popn, g1) = shuffle (population self) (rng_state e)
      in case select_combatants (unat tsize) popn [] (e\<lparr>rng_state := g1\<rparr>) of
           Inl p \<Rightarrow> Some (Inl p)
         | Inr (popn1, combatants, e1) \<Rightarrow>
             let ranked = sort_key fitness combatants in
             (case vec_get ranked 0 of
                Inl p \<Rightarrow> Some (Inl p)
              | Inr champ \<Rightarrow>
                  let (self1, logs) = update_best self champ;
                      survivors = cull (unat (num_offspring (config self1))) ranked
                  in case and_then (add_oc oc (num_offspring (config self1)) 2) (sub_oc oc tsize) of
                       Inl p \<Rightarrow> Some (Inl p)
                     | Inr bystanders \<Rightarrow>
                         let (parents, popn2) = requeue (unat bystanders) survivors popn1 in
                         (case vec_pop parents of
                            None \<Rightarrow> Some (Inl UnwrapNone)
                          | Some (mother, parents') \<Rightarrow>
                              (case vec_pop parents' of
                                 None \<Rightarrow> Some (Inl UnwrapNone)
                               | Some (father, rest) \<Rightarrow>
                                   (case mate mother father (config self1) (rng_state e1) of
                                      None \<Rightarrow> None
                                    | Some (Inl p) \<Rightarrow> Some (Inl p)
                                    | Some (Inr (offspring, g2)) \<Rightarrow>
                                        (case add_oc oc (iteration self1) 1 of
                                           Inl p \<Rightarrow> Some (Inl p)
                                         | Inr it \<Rightarrow>
                                             Some (Inr
                                               (\<lparr>population = popn2 @ [mother, father] @ offspring,
                                                 config = config self1,
                                                 best = best self1,
                                                 iteration = it\<rparr>,
                                                e1\<lparr>rng_state := g2,
                                                   logged := logged e1 @ logs\<rparr>))))))))"

subsection \<open>The loop over generations\<close>

partial_function (option) run_loop :: "epoch \<Rightarrow> env \<Rightarrow> (panic + genome option \<times> env) option" where
  "run_loop world e =
     (case evolve world e of
        None \<Rightarrow> None
      | Some (Inl p) \<Rightarrow> Some (Inl p)
      | Some (Inr (world', e')) \<Rightarrow>
          (case best world' of
             None \<Rightarrow> run_loop world' e'
           | Some champ \<Rightarrow>
               if fitness champ = Some 0 then Some (Inr (Some champ, e'))
               else run_loop world' e'))"

definition run :: "bool \<Rightarrow> config \<Rightarrow> rng \<Rightarrow> (genome option \<times> env) exec" where
  "run oc cfg g =
     (let (world, g') = epoch_new cfg g
      in run_loop world
           \<lparr>rng_state = g',
            observer_thread = observer_spawn (config world),
            evaluator_thread = evaluator_spawn (config world),
            logged = [],
            overflow_checks = oc\<rparr>)"

subsection \<open>Specification level\<close>

text \<open>
  What one generation does, stated without its loops. The observer receives the
  genomes of \<open>observe_all\<close> one after the other. The shuffled population is cut
  in two: the \<open>bench\<close> stays where it is and the \<open>drawn\<close> genomes, scored in the
  order in which they are popped, enter the tournament; \<open>ranked\<close> is the
  tournament sorted by fitness. \<open>evolve_pre\<close> is the condition under which a
  generation does not panic before it mates the parents, \<open>scores_ok\<close> says that
  every cached fitness is the distance to the target of the evaluator, and
  \<open>epoch_inv\<close> is the invariant of the loop in a build without overflow checks
  that breeds two children for two culled genomes.
\<close>

fun observe_all :: "bool \<Rightarrow> observer \<Rightarrow> genome list \<Rightarrow> observer \<times> log_event list" where
  "observe_all oc obs [] = (obs, [])"
| "observe_all oc obs (x # xs) =
     (let (sent, obs', logs) = observe oc obs x;
          (obs'', logs') = observe_all oc obs' xs
      in (obs'', logs @ logs'))"

definition bench :: "epoch \<Rightarrow> env \<Rightarrow> genome list" where
  "bench self e =
     take (length (population self) - unat (tournament_size (config self)))
       (fst (shuffle (population self) (rng_state e)))"

definition drawn :: "epoch \<Rightarrow> env \<Rightarrow> genome list" where
  "drawn self e =
     map (worker_score (eval_target (evaluator_thread e)))
       (rev (drop (length (population self) - unat (tournament_size (config self)))
          (fst (shuffle (population self) (rng_state e)))))"

definition ranked :: "epoch \<Rightarrow> env \<Rightarrow> genome list" where
  "ranked self e = sort_key fitness (drawn self e)"

definition evolve_pre :: "epoch \<Rightarrow> env \<Rightarrow> bool" where
  "evolve_pre self e \<longleftrightarrow>
     worker_alive (evaluator_thread e) \<and>
     unat (num_offspring (config self)) + 2 \<le> unat (tournament_size (config self)) \<and>
     unat (tournament_size (config self)) \<le> length (population self)"

definition scores_ok :: "epoch \<Rightarrow> env \<Rightarrow> bool" where
  "scores_ok self e \<longleftrightarrow>
     list_all (fitness_ok (eval_target (evaluator_thread e))) (population self) \<and>
     (case best self of
        None \<Rightarrow> True
      | Some b \<Rightarrow> fitness b \<noteq> None \<and> fitness_ok (eval_target (evaluator_thread e)) b)"

definition epoch_inv :: "epoch \<Rightarrow> env \<Rightarrow> bool" where
  "epoch_inv self e \<longleftrightarrow>
     evolve_pre self e \<and> num_offspring (config self) = 2 \<and> \<not> overflow_checks e \<and>
     list_all genome_ok (population self) \<and> fair_bytes (u8_src (rng_state e))"

text \<open>
  The generations of a run as a step relation: \<open>generations n x y\<close> holds when
  \<open>n\<close> generations, none of which panics, lead from the epoch and the
  surroundings \<open>x\<close> to \<open>y\<close>. An epoch is solved when its champion has fitness 0:
  this is the exit condition of the loop of \<open>run\<close>.
\<close>

inductive generations :: "nat \<Rightarrow> epoch \<times> env \<Rightarrow> epoch \<times> env \<Rightarrow> bool" where
  gen_start: "generations 0 x x"
| gen_step: "generations n x (w, e) \<Longrightarrow> evolve w e = Some (Inr (w', e')) \<Longrightarrow>
         generations (Suc n) x (w', e')"

definition solved :: "epoch \<Rightarrow> bool" where
  "solved w \<longleftrightarrow> (case best w of None \<Rightarrow> False | Some champ \<Rightarrow> fitness champ = Some 0)"

text \<open>
  An epoch of six genomes and its surroundings for the examples, and what one
  generation makes of them: the tournament of five leaves \<open>WORLD\<close> on the bench,
  culls \<open>JELLY\<close> and \<open>ABCDE\<close>, requeues \<open>HOLLA\<close> and breeds \<open>HELLA\<close> with
  \<open>HELLO\<close>.
\<close>

definition example_env :: env where
  "example_env =
     \<lparr>rng_state = example_rng, observer_thread = Running example_window,
      evaluator_thread = evaluator_spawn example_config, logged = [], overflow_checks = True\<rparr>"

definition example_epoch :: epoch where
  "example_epoch =
     \<lparr>population = map (\<lambda>s. \<lparr>genes = s, fitness = None\<rparr>)
        [''HELLA'', ''JELLY'', ''WORLD'', ''HELLO'', ''ABCDE'', ''HOLLA''],
      config = example_config, best = None, iteration = 0\<rparr>"

definition example_epoch' :: epoch where
  "example_epoch' =
     \<lparr>population =
        [\<lparr>genes = ''WORLD'', fitness = None\<rparr>,
         \<lparr>genes = ''HOLLA'', fitness = Some 2\<rparr>,
         \<lparr>genes = ''HELLA'', fitness = Some 1\<rparr>,
         \<lparr>genes = ''HELLO'', fitness = Some 0\<rparr>,
         \<lparr>genes = ''HELHO'', fitness = None\<rparr>,
         \<lparr>genes = ''LAHHL'', fitness = None\<rparr>],
      config = example_config,
      best = Some \<lparr>genes = ''HELLO'', fitness = Some 0\<rparr>,
      iteration = 1\<rparr>"

definition example_env' :: env where
  "example_env' =
     \<lparr>rng_state = \<lparr>usize_src = sconst 3, u8_src = sconst CHR ''H'', f32_src = sconst 0.05\<rparr>,
      observer_thread =
        Running \<lparr>frame = [Some \<lparr>genes = ''ABCDE'', fitness = Some 5\<rparr>,
                          Some \<lparr>genes = ''HELLA'', fitness = Some 1\<rparr>,
                          Some \<lparr>genes = ''JELLY'', fitness = Some 2\<rparr>],
                 w_i = 2, window_size = 3\<rparr>,
      evaluator_thread = \<lparr>eval_target = ''HELLO'', worker_alive = True\<rparr>,
      logged = [LogAverageFitness (Fin (7 / 3)),
                LogNewChamp 0 \<lparr>genes = ''HELLO'', fitness = Some 0\<rparr>],
      overflow_checks = True\<rparr>"

definition small_config :: config where
  "small_config =
     \<lparr>mut_rate = 0.1, init_len = 2, pop_size = 4, tournament_size = 4, num_offspring = 2,
      target = ''DD'', observer = \<lparr>observer_config.window_size = 2\<rparr>\<rparr>"

text \<open>
  The results of the examples are given as definitions, so that the instances
  below state what the program computes on them.
\<close>

definition small_env' :: env where
  "small_env' =
     \<lparr>rng_state = \<lparr>usize_src = sconst 3, u8_src = sconst CHR ''H'', f32_src = sconst 0.05\<rparr>,
      observer_thread =
        Running \<lparr>frame = [Some \<lparr>genes = ''DD'', fitness = Some 0\<rparr>,
                          Some \<lparr>genes = ''DD'', fitness = Some 0\<rparr>],
                 w_i = 0, window_size = 2\<rparr>,
      evaluator_thread = \<lparr>eval_target = ''DD'', worker_alive = True\<rparr>,
      logged = [LogAverageFitness (Fin 0), LogAverageFitness (Fin 0),
                LogNewChamp 0 \<lparr>genes = ''DD'', fitness = Some 0\<rparr>],
      overflow_checks = True\<rparr>"

subsection \<open>The evaluator\<close>

lemma worker_score_genes [simp]: "genes (worker_score t g) = genes g"
  by (simp add: worker_score_def)

lemma worker_score_scored [simp]: "fitness (worker_score t g) \<noteq> None"
  by (simp add: worker_score_def)

lemma worker_score_fitness_ok [simp]: "fitness_ok t (worker_score t g) \<longleftrightarrow> fitness_ok t g"
  by (simp add: worker_score_def fitness_ok_def)

lemma worker_score_genome_ok [simp]: "genome_ok (worker_score t g) \<longleftrightarrow> genome_ok g"
  by (simp add: genome_ok_def)

lemma worker_score_idem [simp]: "worker_score t (worker_score t g) = worker_score t g"
  by (simp add: worker_score_def)

lemma evaluate_alive [simp]:
  "worker_alive self \<Longrightarrow> evaluate self g = Inr (worker_score (eval_target self) g)"
  by (simp add: evaluate_def)

lemma evaluate_dead [simp]: "\<not> worker_alive self \<Longrightarrow> evaluate self g = Inl ChannelFailure"
  by (simp add: evaluate_def)

text \<open>
  The evaluator thread scores a genome the way \<open>score_mut\<close> does: as long as
  the thread is alive, \<open>evaluate\<close> returns the genome that \<open>score_mut\<close> leaves
  behind for the same target.
\<close>

theorem evaluate_eq_score_mut:
  "worker_alive ev \<Longrightarrow> eval_target ev = target params \<Longrightarrow>
   evaluate ev g = map_sum id snd (score_mut g params)"
  by (simp add: worker_score_def score_mut_def split: option.splits)

subsection \<open>The loops of a generation in closed form\<close>

lemma cull_eq: "cull n c = take (length c - n) c"
proof (induction n arbitrary: c)
  case 0
  then show ?case by simp
next
  case (Suc n)
  then show ?case by (simp add: butlast_conv_take)
qed

lemma requeue_eq: "requeue n c p = (take (length c - n) c, p @ rev (drop (length c - n) c))"
proof (induction n arbitrary: c p)
  case 0
  then show ?case by simp
next
  case (Suc n)
  then show ?case by (cases c rule: rev_cases) simp_all
qed

lemma observe_all_append:
  "observe_all oc obs (xs @ ys) =
     (let (obs', logs) = observe_all oc obs xs; (obs'', logs') = observe_all oc obs' ys
      in (obs'', logs @ logs'))"
  by (induction xs arbitrary: obs) (simp_all add: split_def Let_def)

lemma observe_all_unchecked:
  assumes "window_ok w"
  shows "\<exists>w' logs. window_run False w xs = Inr (w', logs) \<and>
           observe_all False (Running w) xs = (Running w', logs)"
  using assms
proof (induction xs arbitrary: w)
  case Nil
  then show ?case by simp
next
  case (Cons x xs)
  from window_insert_unchecked [OF Cons.prems, of x] obtain w1 l1 where
    one: "window_insert False w x = Inr (w1, l1)" by blast
  from window_insert_ok(1) [OF Cons.prems one] have "window_ok w1" .
  from Cons.IH [OF this] obtain w' l2 where
    "window_run False w1 xs = Inr (w', l2)" "observe_all False (Running w1) xs = (Running w', l2)"
    by blast
  with one show ?case by (simp add: observe_def)
qed

lemma observe_all_Dead [simp]: "observe_all oc Dead xs = (Dead, [])"
  by (induction xs) simp_all

lemma observe_all_Running:
  "fst (observe_all oc (Running w) xs) = Running w' \<Longrightarrow> \<exists>logs. window_run oc w xs = Inr (w', logs)"
proof (induction xs arbitrary: w)
  case Nil
  then show ?case by simp
next
  case (Cons x xs)
  show ?case
  proof (cases "window_insert oc w x")
    case (Inl p)
    with Cons.prems show ?thesis by (simp add: observe_def)
  next
    case (Inr r)
    obtain w1 l1 where r: "r = (w1, l1)" by (cases r)
    with Inr Cons.prems have "fst (observe_all oc (Running w1) xs) = Running w'"
      by (simp add: observe_def split_def Let_def)
    from Cons.IH [OF this] Inr r show ?thesis by auto
  qed
qed

lemma select_combatants_alive:
  assumes "worker_alive (evaluator_thread e)"
  shows "select_combatants n popn cs e =
     Inr (take (length popn - n) popn,
          cs @ map (worker_score (eval_target (evaluator_thread e))) (rev (drop (length popn - n) popn)),
          e\<lparr>observer_thread :=
               fst (observe_all (overflow_checks e) (observer_thread e)
                 (map (worker_score (eval_target (evaluator_thread e))) (rev (drop (length popn - n) popn)))),
            logged := logged e @
               snd (observe_all (overflow_checks e) (observer_thread e)
                 (map (worker_score (eval_target (evaluator_thread e))) (rev (drop (length popn - n) popn))))
               @ replicate (n - length popn) LogPopulationEmpty\<rparr>)"
  using assms
proof (induction n arbitrary: popn cs e)
  case 0
  then show ?case by simp
next
  case (Suc n)
  show ?case
  proof (cases popn rule: rev_cases)
    case Nil
    with Suc show ?thesis by (simp add: replicate_append_same)
  next
    case (snoc ys y)
    with Suc show ?thesis by (simp add: split_def Let_def)
  qed
qed

lemma select_combatants_dead:
  "\<not> worker_alive (evaluator_thread e) \<Longrightarrow> popn \<noteq> [] \<Longrightarrow>
   select_combatants (Suc n) popn cs e = Inl ChannelFailure"
  by (cases popn rule: rev_cases) simp_all

lemma select_combatants_Nil:
  "select_combatants n [] cs e =
     Inr ([], cs, e\<lparr>logged := logged e @ replicate n LogPopulationEmpty\<rparr>)"
proof (induction n arbitrary: e)
  case 0
  then show ?case by simp
next
  case (Suc n)
  then show ?case by (simp add: replicate_append_same)
qed

lemma update_best_fields [simp]:
  "config (fst (update_best self champ)) = config self"
  "iteration (fst (update_best self champ)) = iteration self"
  "population (fst (update_best self champ)) = population self"
  by (simp_all add: update_best_def split: option.splits)

lemma length_drawn:
  "length (drawn self e) = min (unat (tournament_size (config self))) (length (population self))"
  by (simp add: drawn_def)

lemma length_ranked:
  "length (ranked self e) = min (unat (tournament_size (config self))) (length (population self))"
  by (simp add: ranked_def length_drawn)

lemma set_drawn:
  "set (drawn self e) \<subseteq> worker_score (eval_target (evaluator_thread e)) ` set (population self)"
  by (auto simp: drawn_def dest!: in_set_dropD)

lemma set_ranked [simp]: "set (ranked self e) = set (drawn self e)"
  by (simp add: ranked_def)

lemma sorted_ranked: "sorted (map fitness (ranked self e))"
  by (simp add: ranked_def)

lemma set_bench: "set (bench self e) \<subseteq> set (population self)"
  by (auto simp: bench_def dest!: in_set_takeD)

text \<open>
  The tournament partitions the population: the genes on the bench and the
  genes in the tournament are, as a multiset, the genes of the population
  before the generation. Scoring changes the cached fitness only.
\<close>

theorem tournament_partition:
  "mset (map genes (bench self e)) + mset (map genes (ranked self e)) = mset (map genes (population self))"
proof -
  let ?k = "length (population self) - unat (tournament_size (config self))"
  let ?s = "fst (shuffle (population self) (rng_state e))"
  have "mset (map genes (ranked self e)) = mset (map genes (drop ?k ?s))"
    by (simp add: ranked_def drawn_def multiset.map_comp comp_def)
  moreover have "mset (map genes (take ?k ?s)) + mset (map genes (drop ?k ?s)) = mset (map genes ?s)"
    by (metis append_take_drop_id map_append mset_append)
  ultimately show ?thesis
    by (simp add: bench_def)
qed

lemma ranked_scored: "c \<in> set (ranked self e) \<Longrightarrow> fitness c \<noteq> None"
proof -
  assume "c \<in> set (ranked self e)"
  with set_drawn [of self e] obtain g where
    "c = worker_score (eval_target (evaluator_thread e)) g" by auto
  then show ?thesis by simp
qed

lemma ranked_head_least:
  assumes "c \<in> set (ranked self e)"
  shows "fitness (ranked self e ! 0) \<le> fitness c"
proof -
  from assms obtain i where i: "i < length (ranked self e)" "c = ranked self e ! i"
    by (auto simp: in_set_conv_nth simp del: set_ranked)
  with sorted_ranked [of self e] have "map fitness (ranked self e) ! 0 \<le> map fitness (ranked self e) ! i"
    by (intro sorted_nth_mono) simp_all
  moreover from i have "0 < length (ranked self e)" by linarith
  ultimately show ?thesis using i by simp
qed

lemma ranked_genome_ok:
  "list_all genome_ok (population self) \<Longrightarrow> list_all genome_ok (ranked self e)"
  using set_drawn [of self e] by (auto simp: list_all_iff)

lemma bench_genome_ok:
  "list_all genome_ok (population self) \<Longrightarrow> list_all genome_ok (bench self e)"
  using set_bench [of self e] by (auto simp: list_all_iff)

lemma ranked_fitness_ok:
  "list_all (fitness_ok (eval_target (evaluator_thread e))) (population self) \<Longrightarrow>
   list_all (fitness_ok (eval_target (evaluator_thread e))) (ranked self e)"
  using set_drawn [of self e] by (auto simp: list_all_iff)

lemma bench_fitness_ok:
  "list_all (fitness_ok t) (population self) \<Longrightarrow> list_all (fitness_ok t) (bench self e)"
  using set_bench [of self e] by (auto simp: list_all_iff)

lemma update_best_Some: "\<exists>b. best (fst (update_best self champ)) = Some b"
  by (simp add: update_best_def split: option.splits)

lemma update_best_cases:
  "best (fst (update_best self champ)) = Some champ \<or>
   best (fst (update_best self champ)) = best self \<and> best self \<noteq> None"
  by (auto simp: update_best_def split: option.splits)

lemma update_best_fitness:
  assumes "fitness champ \<noteq> None" and "best (fst (update_best self champ)) = Some b"
    and "\<forall>b0. best self = Some b0 \<longrightarrow> fitness b0 \<noteq> None"
  shows "fitness b \<noteq> None \<and> fitness b \<le> fitness champ \<and>
         (\<forall>b0. best self = Some b0 \<longrightarrow> fitness b \<le> fitness b0)"
  using assms
  by (auto simp: update_best_def fitter_than_def split: option.splits if_splits)

lemma ranked_parents:
  assumes "evolve_pre self e"
  shows "ranked self e ! 0 \<in> set (ranked self e)" and "ranked self e ! 1 \<in> set (ranked self e)"
proof -
  from assms have "2 \<le> length (ranked self e)"
    by (simp add: evolve_pre_def length_ranked)
  then show "ranked self e ! 0 \<in> set (ranked self e)" and "ranked self e ! 1 \<in> set (ranked self e)"
    by (auto intro!: nth_mem simp del: set_ranked)
qed

subsection \<open>One generation\<close>

lemma evolve_closed:
  assumes alive: "worker_alive (evaluator_thread e)"
    and cfg: "unat (num_offspring (config self)) + 2 \<le> unat (tournament_size (config self))"
    and pop: "unat (tournament_size (config self)) \<le> length (population self)"
  shows "evolve self e =
     (case mate (ranked self e ! 1) (ranked self e ! 0) (config self)
             (snd (shuffle (population self) (rng_state e))) of
        None \<Rightarrow> None
      | Some (Inl p) \<Rightarrow> Some (Inl p)
      | Some (Inr (offspring, g2)) \<Rightarrow>
          (case add_oc (overflow_checks e) (iteration self) 1 of
             Inl p \<Rightarrow> Some (Inl p)
           | Inr it \<Rightarrow>
               Some (Inr
                 (\<lparr>population =
                     bench self e @
                     rev (take (unat (tournament_size (config self)) - unat (num_offspring (config self)))
                            (ranked self e)) @
                     offspring,
                   config = config self,
                   best = best (fst (update_best self (ranked self e ! 0))),
                   iteration = it\<rparr>,
                  e\<lparr>observer_thread :=
                      fst (observe_all (overflow_checks e) (observer_thread e) (drawn self e)),
                    rng_state := g2,
                    logged := logged e @
                      snd (observe_all (overflow_checks e) (observer_thread e) (drawn self e)) @
                      snd (update_best self (ranked self e ! 0))\<rparr>))))"
proof -
  let ?t = "unat (tournament_size (config self))"
  let ?n = "unat (num_offspring (config self))"
  let ?r = "ranked self e"
  let ?oc = "overflow_checks e"
  define sh where "sh = shuffle (population self) (rng_state e)"
  define m where "m = ?t - ?n - 2"
  from cfg have tn: "?t - ?n = Suc (Suc m)" by (simp add: m_def)
  from cfg pop have len: "length ?r = ?t" by (simp add: length_ranked)
  with tn have m2: "Suc (Suc m) \<le> length ?r" by simp
  have sel: "select_combatants ?t (fst sh) [] (e\<lparr>rng_state := snd sh\<rparr>) =
      Inr (bench self e, drawn self e,
           e\<lparr>rng_state := snd sh,
             observer_thread := fst (observe_all ?oc (observer_thread e) (drawn self e)),
             logged := logged e @ snd (observe_all ?oc (observer_thread e) (drawn self e))\<rparr>)"
    using alive pop by (simp add: select_combatants_alive bench_def drawn_def sh_def)
  have champ: "vec_get ?r 0 = Inr (?r ! 0)"
    using m2 by (intro vec_get_in_range) linarith
  have survivors: "cull ?n ?r = take (Suc (Suc m)) ?r"
    by (simp add: cull_eq len tn)
  have bystanders: "and_then (add_oc ?oc (num_offspring (config self)) 2)
      (sub_oc ?oc (tournament_size (config self))) =
        Inr (tournament_size (config self) - (num_offspring (config self) + 2))"
    "unat (tournament_size (config self) - (num_offspring (config self) + 2)) = m"
    using sub_add_oc_in_range [OF cfg] by (simp_all add: m_def)
  have parents: "requeue m (take (Suc (Suc m)) ?r) (bench self e) =
      ([?r ! 0, ?r ! Suc 0], bench self e @ rev (drop 2 (take (Suc (Suc m)) ?r)))"
    using m2 take_two_split(1) [OF m2] by (simp add: requeue_eq min_absorb2)
  have pops: "vec_pop [?r ! 0, ?r ! Suc 0] = Some (?r ! Suc 0, [?r ! 0])"
    "vec_pop [?r ! 0] = Some (?r ! 0, [])"
    by (simp_all add: vec_pop_def)
  have pushed: "rev (drop 2 (take (Suc (Suc m)) ?r)) @ ?r ! Suc 0 # ?r ! 0 # cs =
      rev (take (Suc (Suc m)) ?r) @ cs" for cs
    using take_two_split(2) [OF m2] by simp
  show ?thesis
    by (simp add: evolve_def Let_def split_def sh_def [symmetric] sel ranked_def [symmetric]
        champ survivors bystanders parents pops pushed tn
        cong: option.case_cong sum.case_cong)
qed

lemma evolve_Inr:
  assumes pre: "evolve_pre self e" and ev: "evolve self e = Some (Inr (self', e'))"
  obtains c1 c2 g2 where
    "mate (ranked self e ! 1) (ranked self e ! 0) (config self)
       (snd (shuffle (population self) (rng_state e))) = Some (Inr ([c1, c2], g2))"
    and "fitness c1 = None" and "fitness c2 = None"
    and "population self' =
       bench self e @
       rev (take (unat (tournament_size (config self)) - unat (num_offspring (config self)))
              (ranked self e)) @ [c1, c2]"
    and "config self' = config self"
    and "best self' = best (fst (update_best self (ranked self e ! 0)))"
    and "iteration self' = iteration self + 1"
    and "rng_state e' = g2"
    and "evaluator_thread e' = evaluator_thread e"
    and "overflow_checks e' = overflow_checks e"
    and "observer_thread e' =
       fst (observe_all (overflow_checks e) (observer_thread e) (drawn self e))"
    and "logged e' = logged e @
       snd (observe_all (overflow_checks e) (observer_thread e) (drawn self e)) @
       snd (update_best self (ranked self e ! 0))"
proof -
  from pre have c: "worker_alive (evaluator_thread e)"
    "unat (num_offspring (config self)) + 2 \<le> unat (tournament_size (config self))"
    "unat (tournament_size (config self)) \<le> length (population self)"
    by (simp_all add: evolve_pre_def)
  from ev obtain cs g2 it where
    m: "mate (ranked self e ! 1) (ranked self e ! 0) (config self)
       (snd (shuffle (population self) (rng_state e))) = Some (Inr (cs, g2))"
    and it: "add_oc (overflow_checks e) (iteration self) 1 = Inr it"
    and r: "self' = \<lparr>population =
                     bench self e @
                     rev (take (unat (tournament_size (config self)) - unat (num_offspring (config self)))
                            (ranked self e)) @ cs,
                   config = config self,
                   best = best (fst (update_best self (ranked self e ! 0))),
                   iteration = it\<rparr>"
      "e' = e\<lparr>observer_thread :=
                      fst (observe_all (overflow_checks e) (observer_thread e) (drawn self e)),
                    rng_state := g2,
                    logged := logged e @
                      snd (observe_all (overflow_checks e) (observer_thread e) (drawn self e)) @
                      snd (update_best self (ranked self e ! 0))\<rparr>"
    unfolding evolve_closed [OF c] by (auto split: option.splits sum.splits)
  from mate_Inr [OF m] obtain c1 c2 where cs: "cs = [c1, c2]" "fitness c1 = None" "fitness c2 = None"
    by blast
  from it have "it = iteration self + 1"
    by (simp add: add_oc_def split: if_splits)
  with m cs r show ?thesis
    by (intro that [of c1 c2 g2]) simp_all
qed

lemma evolve_dead:
  assumes "\<not> worker_alive (evaluator_thread e)"
  shows "\<exists>p. evolve self e = Some (Inl p)"
proof -
  let ?s = "fst (shuffle (population self) (rng_state e))"
  let ?e = "e\<lparr>rng_state := snd (shuffle (population self) (rng_state e))\<rparr>"
  consider (none) "unat (tournament_size (config self)) = 0" | (empty) "?s = []"
    | (some) n where "unat (tournament_size (config self)) = Suc n" "?s \<noteq> []"
    by (cases "unat (tournament_size (config self))") auto
  then show ?thesis
  proof cases
    case none
    then show ?thesis by (simp add: evolve_def split_def)
  next
    case empty
    then show ?thesis by (simp add: evolve_def split_def select_combatants_Nil)
  next
    case some
    with assms have "select_combatants (Suc n) ?s [] ?e = Inl ChannelFailure"
      by (intro select_combatants_dead) simp_all
    with some show ?thesis by (simp add: evolve_def split_def)
  qed
qed

lemma evolve_short:
  assumes alive: "worker_alive (evaluator_thread e)" and short: "\<not> evolve_pre self e"
  shows "\<exists>p. evolve self e = Some (Inl p)"
proof -
  let ?t = "unat (tournament_size (config self))"
  let ?n = "unat (num_offspring (config self))"
  let ?r = "ranked self e"
  let ?oc = "overflow_checks e"
  let ?by = "and_then (add_oc ?oc (num_offspring (config self)) 2)
      (sub_oc ?oc (tournament_size (config self)))"
  define sh where "sh = shuffle (population self) (rng_state e)"
  have sel: "select_combatants ?t (fst sh) [] (e\<lparr>rng_state := snd sh\<rparr>) =
      Inr (bench self e, drawn self e,
           e\<lparr>rng_state := snd sh,
             observer_thread := fst (observe_all ?oc (observer_thread e) (drawn self e)),
             logged := logged e @ snd (observe_all ?oc (observer_thread e) (drawn self e)) @
               replicate (?t - length (population self)) LogPopulationEmpty\<rparr>)"
    using alive by (simp add: select_combatants_alive bench_def drawn_def sh_def)
  show ?thesis
  proof (cases "?r = []")
    case True
    then show ?thesis
      by (simp add: evolve_def Let_def split_def sh_def [symmetric] sel ranked_def [symmetric])
  next
    case False
    then have champ: "vec_get ?r 0 = Inr (?r ! 0)" by simp
    show ?thesis
    proof (cases ?by)
      case (Inl p)
      then show ?thesis
        by (simp add: evolve_def Let_def split_def sh_def [symmetric] sel ranked_def [symmetric] champ)
    next
      case (Inr b)
      define ps where "ps = fst (requeue (unat b) (cull ?n ?r) (bench self e))"
      have "length ps < 2"
      proof (rule ccontr)
        assume "\<not> ?thesis"
        then have ge: "?n + unat b + 2 \<le> length ?r"
          by (simp add: ps_def cull_eq requeue_eq)
        then have cfg: "?n + 2 \<le> ?t" by (simp add: length_ranked)
        from sub_add_oc_in_range(1) [OF cfg, of ?oc] sub_add_oc_in_range(2) [OF cfg] Inr
        have "unat b = ?t - ?n - 2" by simp
        with ge cfg have "?t \<le> length ?r" by linarith
        then have "?t \<le> length (population self)" by (simp add: length_ranked)
        with cfg alive short show False by (simp add: evolve_pre_def)
      qed
      then show ?thesis
        by (rule vec_pop_short)
          (simp_all add: evolve_def Let_def split_def sh_def [symmetric] sel ranked_def [symmetric]
            champ Inr ps_def [symmetric])
    qed
  qed
qed

lemma evolve_pre_if_Inr: "evolve self e = Some (Inr r) \<Longrightarrow> evolve_pre self e"
  using evolve_dead [of e self] evolve_short [of e self] by (cases "worker_alive (evaluator_thread e)") auto

text \<open>
  Claim C17. A generation panics whenever the evaluator thread is gone, the tournament
  is smaller than the number of offspring plus two, or the population is smaller
  than the tournament: it never completes with fewer combatants than asked for.
\<close>

theorem evolve_panics:
  "\<not> evolve_pre self e \<Longrightarrow> \<exists>p. evolve self e = Some (Inl p)"
  using evolve_dead [of e self] evolve_short [of e self] by blast

lemma evolve_size:
  assumes "evolve self e = Some (Inr (self', e'))"
  shows "length (population self') + unat (num_offspring (config self)) = length (population self) + 2"
proof -
  let ?t = "unat (tournament_size (config self))"
  let ?n = "unat (num_offspring (config self))"
  from assms have pre: "evolve_pre self e" by (rule evolve_pre_if_Inr)
  then have l: "length (bench self e) + ?t = length (population self)" "length (ranked self e) = ?t"
    "?n + 2 \<le> ?t"
    by (simp_all add: evolve_pre_def bench_def length_ranked)
  from pre assms obtain c1 c2 where
    "population self' = bench self e @ rev (take (?t - ?n) (ranked self e)) @ [c1, c2]"
    by (rule evolve_Inr)
  then have "length (population self') = length (bench self e) + (?t - ?n) + 2"
    using l(2) by simp
  with l show ?thesis by linarith
qed

text \<open>
  A generation that completes changes the size of the population by
  \<open>2 - num_offspring\<close>: it culls \<open>num_offspring\<close> genomes and adds the two
  children of one crossover, whatever \<open>num_offspring\<close> is. The size is conserved
  if and only if \<open>num_offspring\<close> is 2.
\<close>

theorem evolve_population_size:
  assumes "evolve self e = Some (Inr (self', e'))"
  shows "length (population self') + unat (num_offspring (config self)) = length (population self) + 2 \<and>
         (length (population self') = length (population self) \<longleftrightarrow> num_offspring (config self) = 2)"
  using evolve_size [OF assms] by (auto simp: word_unat_eq_iff)

lemma evolve_returns:
  assumes pre: "evolve_pre self e" and ok: "list_all genome_ok (population self)"
    and fair: "fair_bytes (u8_src (rng_state e))"
    and it: "overflow_checks e \<longrightarrow> iteration self \<noteq> - 1"
  shows "\<exists>self' e'. evolve self e = Some (Inr (self', e')) \<and>
           list_all genome_ok (population self') \<and> fair_bytes (u8_src (rng_state e'))"
proof -
  let ?r = "ranked self e"
  let ?g = "snd (shuffle (population self) (rng_state e))"
  from pre have c: "worker_alive (evaluator_thread e)"
    "unat (num_offspring (config self)) + 2 \<le> unat (tournament_size (config self))"
    "unat (tournament_size (config self)) \<le> length (population self)"
    by (simp_all add: evolve_pre_def)
  from ranked_genome_ok [OF ok, of e] have rok: "list_all genome_ok ?r" .
  with ranked_parents [OF pre] have "genome_ok (?r ! 1)" "genome_ok (?r ! 0)"
    by (simp_all add: list_all_iff del: set_ranked)
  from mate_returns [OF this, of ?g "config self"] fair obtain c1 c2 g' where
    m: "mate (?r ! 1) (?r ! 0) (config self) ?g = Some (Inr ([c1, c2], g'))"
    and cok: "genome_ok c1" "genome_ok c2" and f: "fair_bytes (u8_src g')" by auto
  from it have a: "add_oc (overflow_checks e) (iteration self) 1 = Inr (iteration self + 1)"
    by (rule add_oc_one)
  have "list_all genome_ok (rev (take k ?r))" for k
    using rok by (auto simp: list_all_iff dest: in_set_takeD)
  with bench_genome_ok [OF ok, of e] cok f m show ?thesis
    by (simp add: evolve_closed [OF c] a)
qed

lemma epoch_inv_evolve:
  assumes "epoch_inv self e"
  shows "\<exists>self' e'. evolve self e = Some (Inr (self', e')) \<and> epoch_inv self' e'"
proof -
  from assms have pre: "evolve_pre self e" and n: "num_offspring (config self) = 2"
    and oc: "\<not> overflow_checks e" and ok: "list_all genome_ok (population self)"
    and fair: "fair_bytes (u8_src (rng_state e))"
    by (simp_all add: epoch_inv_def)
  from evolve_returns [OF pre ok fair] oc obtain self' e' where
    ev: "evolve self e = Some (Inr (self', e'))" and ok': "list_all genome_ok (population self')"
    and fair': "fair_bytes (u8_src (rng_state e'))" by auto
  from evolve_size [OF ev] n have "length (population self') = length (population self)" by simp
  moreover from pre ev have same: "config self' = config self \<and>
      evaluator_thread e' = evaluator_thread e \<and> overflow_checks e' = overflow_checks e"
    by (rule evolve_Inr) simp
  ultimately have "evolve_pre self' e'" using pre by (simp add: evolve_pre_def)
  with ev ok' fair' n oc same show ?thesis by (simp add: epoch_inv_def)
qed

text \<open>
  Claim C26. After a generation the epoch has a champion with a fitness, at least as fit
  as every genome of the tournament and as the champion before, provided that
  the champion before, if there was one, was scored: it had a fitness.
\<close>

theorem evolve_best:
  assumes ev: "evolve self e = Some (Inr (self', e'))"
    and b0: "\<forall>b0. best self = Some b0 \<longrightarrow> fitness b0 \<noteq> None"
  shows "\<exists>b. best self' = Some b \<and> fitness b \<noteq> None \<and>
           (\<forall>c \<in> set (ranked self e). fitness b \<le> fitness c) \<and>
           (\<forall>b0. best self = Some b0 \<longrightarrow> fitness b \<le> fitness b0)"
proof -
  let ?c = "ranked self e ! 0"
  from ev have pre: "evolve_pre self e" by (rule evolve_pre_if_Inr)
  from pre ev have best: "best self' = best (fst (update_best self ?c))" by (rule evolve_Inr)
  from ranked_parents(1) [OF pre] have c: "fitness ?c \<noteq> None" by (rule ranked_scored)
  from update_best_Some [of self ?c] obtain b where b: "best (fst (update_best self ?c)) = Some b"
    by blast
  from update_best_fitness [OF c b b0] ranked_head_least [of _ self e] best b show ?thesis
    by (auto intro: order_trans)
qed

lemma evolve_scores_ok:
  assumes ev: "evolve self e = Some (Inr (self', e'))" and inv: "scores_ok self e"
  shows "scores_ok self' e'"
proof -
  let ?t = "eval_target (evaluator_thread e)"
  let ?c = "ranked self e ! 0"
  from ev have pre: "evolve_pre self e" by (rule evolve_pre_if_Inr)
  from inv have pop: "list_all (fitness_ok ?t) (population self)" by (simp add: scores_ok_def)
  from pre ev obtain c1 c2 k where
    p: "population self' = bench self e @ rev (take k (ranked self e)) @ [c1, c2]"
    and c: "fitness c1 = None" "fitness c2 = None"
    and b: "best self' = best (fst (update_best self ?c))"
    and t: "evaluator_thread e' = evaluator_thread e"
    by (rule evolve_Inr)
  have "list_all (fitness_ok ?t) (rev (take k (ranked self e)))"
    using ranked_fitness_ok [OF pop] by (auto simp: list_all_iff dest: in_set_takeD)
  with bench_fitness_ok [OF pop, of e] c p have "list_all (fitness_ok ?t) (population self')"
    by (simp add: fitness_ok_def)
  moreover have "fitness ?c \<noteq> None \<and> fitness_ok ?t ?c"
    using ranked_parents(1) [OF pre] ranked_fitness_ok [OF pop] ranked_scored [of ?c self e]
    by (simp add: list_all_iff del: set_ranked)
  then have "case best self' of None \<Rightarrow> True | Some b \<Rightarrow> fitness b \<noteq> None \<and> fitness_ok ?t b"
    using update_best_cases [of self ?c] inv b by (auto simp: scores_ok_def split: option.splits)
  ultimately show ?thesis by (simp add: scores_ok_def t cong: option.case_cong)
qed

text \<open>
  Claim C13. For a population of genomes that are not empty and hold ASCII genes, a
  supply of bytes that never runs out of printable bytes and an iteration
  counter that is not \<open>2 ^ 64 - 1\<close> in a build with overflow checks, a
  generation completes if and only if the evaluator thread is alive, the
  tournament has room for the offspring and two parents, and the population
  fills the tournament. The state of the observer plays no part: a generation
  completes just the same when the observer is gone.
\<close>

theorem evolve_total:
  assumes "list_all genome_ok (population self)" and "fair_bytes (u8_src (rng_state e))"
    and "overflow_checks e \<longrightarrow> iteration self \<noteq> - 1"
  shows "(\<exists>self' e'. evolve self e = Some (Inr (self', e'))) \<longleftrightarrow> evolve_pre self e"
  using evolve_returns [OF _ assms] evolve_pre_if_Inr [of self e] by blast

text \<open>
  Claim C36. What \<open>assert_invariants\<close> guards. Under the conditions of the
  previous claim on the population, the byte supply and the iteration counter,
  with a live evaluator thread and a population that fills the tournament, a
  generation completes if and only if the configuration passes
  \<open>assert_invariants\<close>, provided that the sum \<open>num_offspring + 2\<close> of the
  assertion is checked or does not wrap around. In any case a generation
  completes only for a configuration that passes the assertion.
\<close>

theorem assert_invariants_guards_evolve:
  assumes "list_all genome_ok (population self)" and "fair_bytes (u8_src (rng_state e))"
    and "overflow_checks e \<longrightarrow> iteration self \<noteq> - 1"
    and "worker_alive (evaluator_thread e)"
    and "unat (tournament_size (config self)) \<le> length (population self)"
  shows "((\<exists>self' e'. evolve self e = Some (Inr (self', e'))) \<longrightarrow>
            assert_invariants oc (config self) = Inr ()) \<and>
         (oc \<or> unat (num_offspring (config self)) + 2 < 2 ^ 64 \<longrightarrow>
            ((\<exists>self' e'. evolve self e = Some (Inr (self', e'))) \<longleftrightarrow>
               assert_invariants oc (config self) = Inr ()))"
proof -
  let ?room = "unat (num_offspring (config self)) + 2 \<le> unat (tournament_size (config self))"
  have ev: "(\<exists>self' e'. evolve self e = Some (Inr (self', e'))) \<longleftrightarrow> ?room"
    using evolve_returns [OF _ assms(1-3)] evolve_pre_if_Inr [of self e] assms(4,5)
    by (auto simp: evolve_pre_def)
  have "assert_invariants oc (config self) = Inr ()" if ?room
  proof -
    from that unat_less_u64 [of "tournament_size (config self)"]
    have "unat (num_offspring (config self)) + 2 < 2 ^ 64" by simp
    then show ?thesis using that by (simp add: assert_invariants_iff)
  qed
  then show ?thesis
    unfolding ev by (auto simp: assert_invariants_iff)
qed

text \<open>
  Claim C2. A generation that completes leaves the bench where it was, requeues
  \<open>tournament_size - num_offspring - 2\<close> bystanders, then the two fittest
  genomes of the tournament, the second fittest first, and then two children
  without a fitness; it keeps the configuration and advances the iteration by
  one.
\<close>

theorem evolve_generation:
  assumes "evolve self e = Some (Inr (self', e'))"
  shows "\<exists>bystanders c1 c2.
     population self' =
       bench self e @ rev bystanders @ [ranked self e ! 1, ranked self e ! 0, c1, c2] \<and>
     bystanders =
       drop 2 (take (unat (tournament_size (config self)) - unat (num_offspring (config self)))
                 (ranked self e)) \<and>
     length bystanders =
       unat (tournament_size (config self)) - unat (num_offspring (config self)) - 2 \<and>
     fitness c1 = None \<and> fitness c2 = None \<and>
     config self' = config self \<and> iteration self' = iteration self + 1"
proof -
  let ?t = "unat (tournament_size (config self))"
  let ?n = "unat (num_offspring (config self))"
  let ?r = "ranked self e"
  from assms have pre: "evolve_pre self e" by (rule evolve_pre_if_Inr)
  then have len: "length ?r = ?t" and cfg: "?n + 2 \<le> ?t"
    by (simp_all add: evolve_pre_def length_ranked)
  define m where "m = ?t - ?n - 2"
  from cfg have tn: "?t - ?n = Suc (Suc m)" by (simp add: m_def)
  with len have m2: "Suc (Suc m) \<le> length ?r" by simp
  from pre assms obtain c1 c2 where
    p: "population self' = bench self e @ rev (take (?t - ?n) ?r) @ [c1, c2]"
    and c: "fitness c1 = None" "fitness c2 = None"
      "config self' = config self" "iteration self' = iteration self + 1"
    by (rule evolve_Inr)
  from p take_two_split(2) [OF m2]
  have "population self' =
      bench self e @ rev (drop 2 (take (?t - ?n) ?r)) @ [?r ! 1, ?r ! 0, c1, c2]"
    by (simp add: tn)
  moreover have "length (drop 2 (take (?t - ?n) ?r)) = ?t - ?n - 2"
    using len by simp
  ultimately show ?thesis using c by blast
qed

subsection \<open>The loop over generations\<close>

lemma run_loop_rule:
  assumes ret: "run_loop world e = Some y"
    and inv: "I world e"
    and step: "\<And>w e w' e'. I w e \<Longrightarrow> evolve w e = Some (Inr (w', e')) \<Longrightarrow> I w' e'"
    and panic: "\<And>w e p. I w e \<Longrightarrow> evolve w e = Some (Inl p) \<Longrightarrow> Q (Inl p)"
    and exit: "\<And>w e w' e' champ. I w e \<Longrightarrow> evolve w e = Some (Inr (w', e')) \<Longrightarrow>
        best w' = Some champ \<Longrightarrow> fitness champ = Some 0 \<Longrightarrow> Q (Inr (Some champ, e'))"
  shows "Q y"
proof -
  have "I world e \<longrightarrow> Q y"
  proof (rule run_loop.raw_induct [where P = "\<lambda>w e y. I w e \<longrightarrow> Q y", OF _ ret])
    fix f w e y
    assume IH: "\<And>w e y. f w e = Some y \<Longrightarrow> I w e \<longrightarrow> Q y"
      and eq: "(case evolve w e of
          None \<Rightarrow> None
        | Some (Inl p) \<Rightarrow> Some (Inl p)
        | Some (Inr (world', e')) \<Rightarrow>
            (case best world' of
               None \<Rightarrow> f world' e'
             | Some champ \<Rightarrow>
                 if fitness champ = Some 0 then Some (Inr (Some champ, e'))
                 else f world' e')) = Some y"
    show "I w e \<longrightarrow> Q y"
    proof
      assume i: "I w e"
      from eq consider (panic) p where "evolve w e = Some (Inl p)" "y = Inl p"
        | (exit) w' e' champ where "evolve w e = Some (Inr (w', e'))" "best w' = Some champ"
            "fitness champ = Some 0" "y = Inr (Some champ, e')"
        | (loop) w' e' where "evolve w e = Some (Inr (w', e'))" "f w' e' = Some y"
        by (auto split: option.splits sum.splits if_splits)
      then show "Q y"
      proof cases
        case panic
        with i show ?thesis by (auto intro: assms(4))
      next
        case exit
        with i show ?thesis by (auto intro: assms(5))
      next
        case loop
        from step [OF i loop(1)] IH [OF loop(2)] show ?thesis by simp
      qed
    qed
  qed
  with inv show ?thesis by simp
qed

lemma run_loop_sound:
  assumes "run_loop world e = Some (Inr (r, e'))" and "scores_ok world e"
  shows "\<exists>champ. r = Some champ \<and> fitness champ = Some 0 \<and>
           genes champ = eval_target (evaluator_thread e)"
proof -
  define I where "I w e1 \<longleftrightarrow> scores_ok w e1 \<and> evaluator_thread e1 = evaluator_thread e" for w e1
  define Q :: "panic + genome option \<times> env \<Rightarrow> bool" where
    "Q y \<longleftrightarrow> (\<forall>r e'. y = Inr (r, e') \<longrightarrow>
      (\<exists>champ. r = Some champ \<and> fitness champ = Some 0 \<and>
         genes champ = eval_target (evaluator_thread e)))" for y
  have same: "evaluator_thread e2 = evaluator_thread e1"
    if "evolve w e1 = Some (Inr (w', e2))" for w e1 w' e2
    using evolve_pre_if_Inr [OF that] that by (rule evolve_Inr)
  from assms(1) have "Q (Inr (r, e'))"
  proof (rule run_loop_rule [where I = I and Q = Q])
    show "I world e" using assms(2) by (simp add: I_def)
  next
    fix w e1 w' e2
    assume "I w e1" and "evolve w e1 = Some (Inr (w', e2))"
    then show "I w' e2" by (simp add: I_def evolve_scores_ok same)
  next
    fix w e1 p
    show "Q (Inl p)" by (simp add: Q_def)
  next
    fix w e1 w' e2 champ
    assume i: "I w e1" and ev: "evolve w e1 = Some (Inr (w', e2))"
      and champ: "best w' = Some champ" "fitness champ = Some 0"
    from i ev have "scores_ok w' e2" "evaluator_thread e2 = evaluator_thread e"
      by (simp_all add: I_def evolve_scores_ok same)
    with champ have "levenshtein (genes champ) (eval_target (evaluator_thread e)) = 0"
      by (simp add: scores_ok_def fitness_ok_def)
    with champ show "Q (Inr (Some champ, e2))"
      by (simp add: Q_def levenshtein_eq_0_iff)
  qed
  then show ?thesis by (simp add: Q_def)
qed

lemma run_loop_no_panic:
  assumes "epoch_inv world e"
  shows "run_loop world e \<noteq> Some (Inl p)"
proof
  define Q :: "panic + genome option \<times> env \<Rightarrow> bool" where "Q y \<longleftrightarrow> (\<forall>q. y \<noteq> Inl q)" for y
  assume "run_loop world e = Some (Inl p)"
  then have "Q (Inl p)"
  proof (rule run_loop_rule [where I = epoch_inv and Q = Q])
    show "epoch_inv world e" by (rule assms)
  next
    fix w e1 w' e2
    assume "epoch_inv w e1" and "evolve w e1 = Some (Inr (w', e2))"
    with epoch_inv_evolve [of w e1] show "epoch_inv w' e2" by auto
  next
    fix w e1 q
    assume "epoch_inv w e1" and "evolve w e1 = Some (Inl q)"
    with epoch_inv_evolve [of w e1] show "Q (Inl q)" by auto
  next
    fix w e1 w' e2 champ
    show "Q (Inr (Some champ, e2))" by (simp add: Q_def)
  qed
  then show False by (simp add: Q_def)
qed

lemma genome_new_u8_src [simp]: "u8_src (snd (genome_new n g)) = u8_src g"
  by (simp add: genome_new_def split_def Let_def)

lemma random_population_length [simp]: "length (fst (random_population k n g)) = k"
  by (induction k arbitrary: g) (simp_all add: split_def Let_def)

lemma random_population_u8_src [simp]: "u8_src (snd (random_population k n g)) = u8_src g"
  by (induction k arbitrary: g) (simp_all add: split_def Let_def)

lemma random_population_all:
  assumes "\<And>g. P (fst (genome_new n g))"
  shows "list_all P (fst (random_population k n g))"
  by (induction k arbitrary: g) (simp_all add: split_def Let_def assms)

lemma epoch_new_fields [simp]:
  "config (fst (epoch_new cfg g)) = cfg"
  "best (fst (epoch_new cfg g)) = None"
  "iteration (fst (epoch_new cfg g)) = 0"
  "population (fst (epoch_new cfg g)) =
     fst (random_population (unat (pop_size cfg)) (init_len cfg) g)"
  "u8_src (snd (epoch_new cfg g)) = u8_src g"
  by (simp_all add: epoch_new_def split_def Let_def)

text \<open>
  Claim C37. A new epoch holds \<open>pop_size\<close> genomes of \<open>init_len\<close> alphanumeric genes
  without a fitness, no champion, and the iteration 0.
\<close>

theorem epoch_new_props:
  "length (population (fst (epoch_new cfg g))) = unat (pop_size cfg) \<and>
   list_all (\<lambda>x. len x = unat (init_len cfg) \<and> fitness x = None \<and>
                  set (genes x) \<subseteq> set alphanumeric_charset)
     (population (fst (epoch_new cfg g))) \<and>
   best (fst (epoch_new cfg g)) = None \<and> iteration (fst (epoch_new cfg g)) = 0 \<and>
   config (fst (epoch_new cfg g)) = cfg"
  by (simp add: random_population_all genome_new_def split_def Let_def len_def
      random_genes_length random_genes_alnum)

text \<open>
  Claim C5. Whenever \<open>run\<close> returns normally, it returns a champion whose genes are the
  target, with the fitness 0.
\<close>

theorem run_sound:
  assumes "run oc cfg g = Some (Inr (r, e'))"
  shows "\<exists>champ. r = Some champ \<and> fitness champ = Some 0 \<and> genes champ = target cfg"
proof -
  let ?w = "fst (epoch_new cfg g)"
  let ?e = "\<lparr>rng_state = snd (epoch_new cfg g), observer_thread = observer_spawn cfg,
             evaluator_thread = evaluator_spawn cfg, logged = [], overflow_checks = oc\<rparr>"
  from assms have ret: "run_loop ?w ?e = Some (Inr (r, e'))"
    by (simp add: run_def split_def Let_def)
  have "list_all (\<lambda>x. fitness x = None) (population ?w)"
    by (simp add: random_population_all genome_new_def split_def Let_def)
  then have "scores_ok ?w ?e"
    by (simp add: scores_ok_def fitness_ok_def list_all_iff)
  from run_loop_sound [OF ret this] show ?thesis
    by (simp add: evaluator_spawn_def)
qed

text \<open>
  Claim C18. Built without overflow checks, \<open>run\<close> never panics for a configuration with
  two offspring, a tournament of at least four that the population can fill,
  genomes that are not empty and a supply of bytes that never runs out of
  printable bytes: it returns the target or runs forever.
\<close>

theorem run_never_panics:
  assumes n: "num_offspring cfg = 2" and t: "4 \<le> tournament_size cfg"
    and k: "tournament_size cfg \<le> pop_size cfg" and l: "init_len cfg \<noteq> 0"
    and fair: "fair_bytes (u8_src g)"
  shows "run False cfg g \<noteq> Some (Inl p)"
proof -
  let ?w = "fst (epoch_new cfg g)"
  let ?e = "\<lparr>rng_state = snd (epoch_new cfg g), observer_thread = observer_spawn cfg,
             evaluator_thread = evaluator_spawn cfg, logged = [], overflow_checks = False\<rparr>"
  have "list_all genome_ok (population ?w)"
    using l by (simp add: random_population_all genome_new_ok)
  moreover have "evolve_pre ?w ?e"
    using n t k by (simp add: evolve_pre_def evaluator_spawn_def word_le_nat_alt)
  ultimately have "epoch_inv ?w ?e"
    using n fair by (simp add: epoch_inv_def)
  from run_loop_no_panic [OF this] show ?thesis
    by (simp add: run_def split_def Let_def)
qed

text \<open>
  The loop returns the champion as soon as a generation ends with a champion
  of fitness 0.
\<close>

lemma run_loop_exit:
  assumes "evolve world e = Some (Inr (world', e'))" and "best world' = Some champ"
    and "fitness champ = Some 0"
  shows "run_loop world e = Some (Inr (Some champ, e'))"
  using assms by (subst run_loop.simps) simp

subsection \<open>Instances\<close>

text \<open>The loops on numerals, for the evaluation of the examples.\<close>

lemma select_combatants_numeral:
  "select_combatants (numeral k) popn combatants e =
     (case vec_pop popn of
        None \<Rightarrow>
          select_combatants (pred_numeral k) popn combatants (e\<lparr>logged := logged e @ [LogPopulationEmpty]\<rparr>)
      | Some (combatant, popn') \<Rightarrow>
          and_then (evaluate (evaluator_thread e) combatant) (\<lambda>scored.
            let (sent, obs, logs) = observe (overflow_checks e) (observer_thread e) scored
            in select_combatants (pred_numeral k) popn' (combatants @ [scored])
                 (e\<lparr>observer_thread := obs, logged := logged e @ logs\<rparr>)))"
  by (simp only: numeral_eq_Suc select_combatants.simps)

lemma cull_numeral: "cull (numeral k) combatants = cull (pred_numeral k) (butlast combatants)"
  by (simp only: numeral_eq_Suc cull.simps)

lemma requeue_numeral:
  "requeue (numeral k) combatants popn =
     (case vec_pop combatants of
        Some (c, combatants') \<Rightarrow> requeue (pred_numeral k) combatants' (popn @ [c])
      | None \<Rightarrow> requeue (pred_numeral k) combatants popn)"
  by (simp only: numeral_eq_Suc requeue.simps)

lemma random_population_numeral:
  "random_population (numeral k) n g =
     (let (x, g1) = genome_new n g;
          (xs, g2) = random_population (pred_numeral k) n g1
      in (x # xs, g2))"
  by (simp only: numeral_eq_Suc random_population.simps)

lemma random_genes_numeral:
  "random_genes (numeral k) g =
     (let (c, g1) = sample_alphanumeric g;
          (s, g2) = random_genes (pred_numeral k) g1
      in (c # s, g2))"
  by (simp only: numeral_eq_Suc random_genes.simps)

lemmas evolve_eval =
  Let_def evolve_def shuffle_eval select_combatants_numeral cull_numeral requeue_numeral
  evaluator_spawn_def evaluate_def worker_score_def observe_def window_eval vec_pop_def
  update_best_def add_oc_def sub_oc_def mate_def crossover_def len_def split_at_def
  is_char_boundary_def is_continuation_def gen_f32_def mutate_def mutate_loop.simps vec_get_def

lemmas example_epoch_defs =
  example_epoch_def example_env_def example_epoch'_def example_env'_def example_rng_def
  example_config_def

lemma evolve_example: "evolve example_epoch example_env = Some (Inr (example_epoch', example_env'))"
  by (simp del: shuffle_loop.simps(2) add: evolve_eval example_epoch_defs)

lemma run_example:
  "run True small_config example_rng =
     Some (Inr (Some \<lparr>genes = ''DD'', fitness = Some 0\<rparr>, small_env'))"
  by (simp del: shuffle_loop.simps(2)
      add: run_def epoch_new_def random_population_numeral genome_new_def random_genes_numeral
        sample_alphanumeric_def alphanumeric_charset_def observer_spawn_def window_new_def
        run_loop.simps rust_simps evolve_eval small_config_def small_env'_def example_rng_def)

lemma example_fair: "fair_bytes (u8_src (rng_state example_env))"
  using fair_bytes_sconst [of "CHR ''H''" "[CHR 0x01, CHR 0xC8]"]
  by (simp add: example_env_def example_rng_def printable_def)

lemma example_genome_ok: "list_all genome_ok (population example_epoch)"
  by (simp add: example_epoch_def genome_ok_def is_ascii_def)

lemma example_pre: "evolve_pre example_epoch example_env"
  by (simp add: evolve_pre_def example_epoch_def example_env_def example_config_def
      evaluator_spawn_def)

theorem evaluate_eq_score_mut_witness:
  "evaluate (evaluator_spawn example_config) \<lparr>genes = ''HELLA'', fitness = None\<rparr> =
     map_sum id snd (score_mut \<lparr>genes = ''HELLA'', fitness = None\<rparr> example_config)"
  using evaluate_eq_score_mut [of "evaluator_spawn example_config" example_config]
  by (simp add: evaluator_spawn_def)

theorem evolve_panics_witness:
  "\<exists>p. evolve (example_epoch\<lparr>population := []\<rparr>) example_env = Some (Inl p)"
  using evolve_panics [of "example_epoch\<lparr>population := []\<rparr>" example_env]
  by (simp add: evolve_pre_def example_epoch_def example_config_def)

theorem evolve_population_size_witness:
  "length (population example_epoch') + unat (num_offspring (config example_epoch)) =
     length (population example_epoch) + 2 \<and>
   (length (population example_epoch') = length (population example_epoch) \<longleftrightarrow>
      num_offspring (config example_epoch) = 2)"
  using evolve_example by (rule evolve_population_size)

theorem evolve_best_witness:
  "\<exists>b f. best example_epoch' = Some b \<and> fitness b = Some f"
  using evolve_best [OF evolve_example] by (auto simp: example_epoch_def)

theorem run_sound_witness:
  "\<exists>champ. Some \<lparr>genes = ''DD'', fitness = Some 0\<rparr> = Some champ \<and> fitness champ = Some 0 \<and>
     genes champ = target small_config"
  using run_example by (rule run_sound)

theorem run_never_panics_witness:
  "\<forall>p. run False example_config example_rng \<noteq> Some (Inl p)"
  using run_never_panics [of example_config example_rng] example_fair
  by (simp add: example_config_def example_env_def)

theorem evolve_total_witness:
  "(\<exists>self' e'. evolve example_epoch example_env = Some (Inr (self', e'))) \<longleftrightarrow>
     evolve_pre example_epoch example_env"
  using example_genome_ok example_fair
  by (rule evolve_total) (simp add: example_epoch_def)

theorem assert_invariants_guards_evolve_witness:
  "assert_invariants True (config example_epoch) = Inr ()"
proof -
  have "worker_alive (evaluator_thread example_env)"
    and "unat (tournament_size (config example_epoch)) \<le> length (population example_epoch)"
    and "overflow_checks example_env \<longrightarrow> iteration example_epoch \<noteq> - 1"
    by (simp_all add: example_epoch_def example_env_def example_config_def evaluator_spawn_def)
  from assert_invariants_guards_evolve [OF example_genome_ok example_fair this(3,1,2), of True]
    evolve_example
  show ?thesis by blast
qed

theorem evolve_generation_witness:
  "\<exists>bystanders c1 c2.
     population example_epoch' =
       bench example_epoch example_env @ rev bystanders @
       [ranked example_epoch example_env ! 1, ranked example_epoch example_env ! 0, c1, c2] \<and>
     bystanders =
       drop 2 (take (unat (tournament_size (config example_epoch)) -
                     unat (num_offspring (config example_epoch)))
                 (ranked example_epoch example_env)) \<and>
     length bystanders =
       unat (tournament_size (config example_epoch)) - unat (num_offspring (config example_epoch)) - 2 \<and>
     fitness c1 = None \<and> fitness c2 = None \<and>
     config example_epoch' = config example_epoch \<and>
     iteration example_epoch' = iteration example_epoch + 1"
  using evolve_example by (rule evolve_generation)

lemma run_loop_example:
  "run_loop example_epoch example_env =
     Some (Inr (Some \<lparr>genes = ''HELLO'', fitness = Some 0\<rparr>, example_env'))"
  using evolve_example by (rule run_loop_exit) (simp_all add: example_epoch'_def)

subsection \<open>The generations of a run\<close>

inductive_simps generations_0 [simp]: "generations 0 x y"
inductive_simps generations_Suc: "generations (Suc n) x y"
inductive_cases generations_SucE: "generations (Suc n) x y"

lemma generations_Suc_iff:
  "generations (Suc n) x z \<longleftrightarrow> (\<exists>w e. generations n x (w, e) \<and> evolve w e = Some (Inr z))"
  by (cases z) (auto simp: generations_Suc)

lemma generations_inv:
  assumes "generations n x y" and "epoch_inv (fst x) (snd x)"
  shows "epoch_inv (fst y) (snd y)"
  using assms
proof (induction rule: generations.induct)
  case (gen_start x)
  then show ?case .
next
  case (gen_step n x w e w' e')
  then have "epoch_inv w e" by simp
  from epoch_inv_evolve [OF this] gen_step.hyps(2) show ?case by auto
qed

lemma generations_progress:
  assumes "epoch_inv (fst x) (snd x)"
  shows "\<exists>y. generations n x y"
proof (induction n)
  case 0
  show ?case by simp
next
  case (Suc n)
  then obtain w e where g: "generations n x (w, e)" by auto
  from generations_inv [OF g assms] have "epoch_inv w e" by simp
  from epoch_inv_evolve [OF this] obtain w' e' where "evolve w e = Some (Inr (w', e'))" by blast
  with g show ?case by (blast intro: generations.gen_step)
qed

lemma generations_deterministic:
  "generations n x y \<Longrightarrow> generations n x z \<Longrightarrow> y = z"
proof (induction n arbitrary: y z)
  case 0
  then show ?case by simp
next
  case (Suc n)
  from Suc.prems(1) obtain w e where a: "generations n x (w, e)" "evolve w e = Some (Inr y)"
    by (auto simp: generations_Suc_iff)
  from Suc.prems(2) obtain w2 e2 where b: "generations n x (w2, e2)" "evolve w2 e2 = Some (Inr z)"
    by (auto simp: generations_Suc_iff)
  from Suc.IH [OF a(1) b(1)] a(2) b(2) show ?case by simp
qed

lemma generations_frame:
  assumes "generations n x y"
  shows "config (fst y) = config (fst x) \<and> evaluator_thread (snd y) = evaluator_thread (snd x) \<and>
         overflow_checks (snd y) = overflow_checks (snd x) \<and>
         iteration (fst y) = iteration (fst x) + of_nat n \<and>
         length (population (fst y)) + n * unat (num_offspring (config (fst x))) =
           length (population (fst x)) + 2 * n"
  using assms
proof (induction rule: generations.induct)
  case (gen_start x)
  then show ?case by simp
next
  case (gen_step n x w e w' e')
  from gen_step.hyps(2) have pre: "evolve_pre w e" by (rule evolve_pre_if_Inr)
  from pre gen_step.hyps(2) have "config w' = config w \<and> evaluator_thread e' = evaluator_thread e \<and>
      overflow_checks e' = overflow_checks e \<and> iteration w' = iteration w + 1"
    by (rule evolve_Inr) simp
  with gen_step.IH evolve_size [OF gen_step.hyps(2)] show ?case by (simp add: algebra_simps)
qed

lemma generations_first:
  "generations (Suc n) x z \<longleftrightarrow>
     (\<exists>y. evolve (fst x) (snd x) = Some (Inr y) \<and> generations n y z)"
proof (induction n arbitrary: z)
  case 0
  show ?case by (cases x) (auto simp: generations_Suc_iff)
next
  case (Suc n)
  have "generations (Suc (Suc n)) x z \<longleftrightarrow>
      (\<exists>w e. generations (Suc n) x (w, e) \<and> evolve w e = Some (Inr z))"
    by (rule generations_Suc_iff)
  also have "\<dots> \<longleftrightarrow> (\<exists>y w e. evolve (fst x) (snd x) = Some (Inr y) \<and> generations n y (w, e) \<and>
      evolve w e = Some (Inr z))"
    by (auto simp: Suc.IH)
  also have "\<dots> \<longleftrightarrow> (\<exists>y. evolve (fst x) (snd x) = Some (Inr y) \<and> generations (Suc n) y z)"
    by (auto simp: generations_Suc_iff)
  finally show ?case .
qed

lemma run_loop_unfold:
  "evolve w e = Some (Inr (w', e')) \<Longrightarrow>
   run_loop w e = (if solved w' then Some (Inr (best w', e')) else run_loop w' e')"
  by (subst run_loop.simps) (simp add: solved_def split: option.split)

lemma run_loop_returns:
  assumes "generations (Suc n) (w, e) (w', e')" and "solved w'"
  shows "\<exists>k w2 e2. k \<le> n \<and> generations (Suc k) (w, e) (w2, e2) \<and> solved w2 \<and>
           run_loop w e = Some (Inr (best w2, e2))"
  using assms
proof (induction n arbitrary: w e)
  case 0
  then have ev: "evolve w e = Some (Inr (w', e'))" by (simp add: generations_first)
  with 0 show ?case by (auto simp: run_loop_unfold)
next
  case (Suc n)
  from Suc.prems(1) obtain w1 e1 where
    ev: "evolve w e = Some (Inr (w1, e1))" and g: "generations (Suc n) (w1, e1) (w', e')"
    by (auto simp: generations_first [of "Suc n"])
  show ?case
  proof (cases "solved w1")
    case True
    from ev have "generations (Suc 0) (w, e) (w1, e1)" by (simp add: generations_first)
    with True ev show ?thesis by (auto simp: run_loop_unfold)
  next
    case False
    from Suc.IH [OF g Suc.prems(2)] obtain k w2 e2 where
      k: "k \<le> n" "generations (Suc k) (w1, e1) (w2, e2)" "solved w2"
        "run_loop w1 e1 = Some (Inr (best w2, e2))" by blast
    from ev k(2) have "generations (Suc (Suc k)) (w, e) (w2, e2)"
      by (auto simp: generations_first [of "Suc k"])
    with k False ev show ?thesis
      by (intro exI [of _ "Suc k"] exI [of _ w2] exI [of _ e2]) (simp add: run_loop_unfold)
  qed
qed

lemma run_loop_first:
  assumes "generations (Suc n) (w, e) (w', e')" and "solved w'"
    and "\<forall>k<n. \<forall>y. generations (Suc k) (w, e) y \<longrightarrow> \<not> solved (fst y)"
  shows "run_loop w e = Some (Inr (best w', e'))"
  using assms
proof (induction n arbitrary: w e)
  case 0
  then have "evolve w e = Some (Inr (w', e'))" by (simp add: generations_first)
  with 0 show ?case by (simp add: run_loop_unfold)
next
  case (Suc n)
  from Suc.prems(1) obtain w1 e1 where
    ev: "evolve w e = Some (Inr (w1, e1))" and g: "generations (Suc n) (w1, e1) (w', e')"
    by (auto simp: generations_first [of "Suc n"])
  from ev have "generations (Suc 0) (w, e) (w1, e1)" by (simp add: generations_first)
  with Suc.prems(3) have unsolved: "\<not> solved w1" by fastforce
  have "\<forall>k<n. \<forall>y. generations (Suc k) (w1, e1) y \<longrightarrow> \<not> solved (fst y)"
  proof (intro allI impI)
    fix k y assume "k < n" and "generations (Suc k) (w1, e1) y"
    with ev have "Suc k < Suc n" and "generations (Suc (Suc k)) (w, e) y"
      by (auto simp: generations_first [of "Suc k"])
    with Suc.prems(3) show "\<not> solved (fst y)" by blast
  qed
  from Suc.IH [OF g Suc.prems(2) this] ev unsolved show ?case
    by (simp add: run_loop_unfold)
qed

lemma run_loop_reaches:
  assumes "run_loop world e = Some (Inr (r, e2))"
  shows "\<exists>n w'. generations (Suc n) (world, e) (w', e2) \<and> solved w' \<and> r = best w'"
proof -
  define I where "I w e1 \<longleftrightarrow> (\<exists>n. generations n (world, e) (w, e1))" for w e1
  define Q :: "panic + genome option \<times> env \<Rightarrow> bool" where
    "Q y \<longleftrightarrow> (\<forall>r e2. y = Inr (r, e2) \<longrightarrow>
      (\<exists>n w'. generations (Suc n) (world, e) (w', e2) \<and> solved w' \<and> r = best w'))" for y
  from assms have "Q (Inr (r, e2))"
  proof (rule run_loop_rule [where I = I and Q = Q])
    show "I world e" unfolding I_def by (rule exI [of _ 0]) simp
  next
    fix w e1 w' e'
    assume "I w e1" and "evolve w e1 = Some (Inr (w', e'))"
    then show "I w' e'" unfolding I_def by (blast intro: generations.gen_step)
  next
    fix w e1 p
    show "Q (Inl p)" by (simp add: Q_def)
  next
    fix w e1 w' e' champ
    assume "I w e1" and ev: "evolve w e1 = Some (Inr (w', e'))"
      and champ: "best w' = Some champ" "fitness champ = Some 0"
    then obtain n where "generations n (world, e) (w, e1)" by (auto simp: I_def)
    from this ev have "generations (Suc n) (world, e) (w', e')" by (rule generations.gen_step)
    moreover from champ have "solved w'" by (simp add: solved_def)
    ultimately show "Q (Inr (Some champ, e'))"
      unfolding Q_def using champ(1) by (auto intro!: exI [of _ n] exI [of _ w'])
  qed
  then show ?thesis by (simp add: Q_def)
qed

text \<open>
  Claim C6. The loop of \<open>run\<close> returns a champion exactly when some generation
  of the run is solved, and it does not return normally when there is none. It
  returns at the first such generation: when the generation \<open>n + 1\<close> is solved
  and no generation before it is, the loop returns the champion and the
  surroundings of that generation.
\<close>

theorem run_loop_returns_iff:
  "((\<exists>r e2. run_loop world e = Some (Inr (r, e2))) \<longleftrightarrow>
    (\<exists>n w' e'. generations (Suc n) (world, e) (w', e') \<and> solved w')) \<and>
   (\<forall>n w' e'. generations (Suc n) (world, e) (w', e') \<and> solved w' \<and>
      (\<forall>k<n. \<forall>y. generations (Suc k) (world, e) y \<longrightarrow> \<not> solved (fst y)) \<longrightarrow>
      run_loop world e = Some (Inr (best w', e')))"
  using run_loop_reaches [of world e] run_loop_returns [of _ world e] run_loop_first [of _ world e]
  by blast

theorem run_loop_returns_iff_witness:
  "run_loop example_epoch example_env = Some (Inr (best example_epoch', example_env'))"
proof -
  have "generations (Suc 0) (example_epoch, example_env) (example_epoch', example_env')"
    using evolve_example by (simp add: generations_first)
  moreover have "solved example_epoch'" by (simp add: solved_def example_epoch'_def)
  ultimately show ?thesis
    using run_loop_returns_iff [of example_epoch example_env] by blast
qed

text \<open>
  Claim C31. Every epoch that a run reaches from a valid start is valid: with two
  offspring, a tournament that the population fills, non-empty ASCII genomes, a
  fair byte supply and no overflow checks, the population keeps its size, the
  configuration stays, the iteration counts the generations, and a further
  generation always completes.
\<close>

theorem generations_invariant:
  assumes "generations n (w, e) (w', e')" and "epoch_inv w e"
  shows "epoch_inv w' e' \<and> length (population w') = length (population w) \<and>
         config w' = config w \<and> iteration w' = iteration w + of_nat n \<and>
         (\<exists>y. generations (Suc n) (w, e) y)"
proof -
  from generations_inv [OF assms(1)] assms(2) have inv: "epoch_inv w' e'" by simp
  from assms(2) have "num_offspring (config w) = 2" by (simp add: epoch_inv_def)
  with generations_frame [OF assms(1)] have "length (population w') = length (population w)"
    "config w' = config w" "iteration w' = iteration w + of_nat n" by simp_all
  moreover from generations_progress [of "(w, e)" "Suc n"] assms(2)
  have "\<exists>y. generations (Suc n) (w, e) y" by simp
  ultimately show ?thesis using inv by simp
qed

lemma evolve_example_unchecked:
  "evolve example_epoch (example_env\<lparr>overflow_checks := False\<rparr>) =
     Some (Inr (example_epoch', example_env'\<lparr>overflow_checks := False\<rparr>))"
  by (simp del: shuffle_loop.simps(2) add: evolve_eval example_epoch_defs)

theorem generations_invariant_witness:
  "length (population example_epoch') = length (population example_epoch) \<and>
   config example_epoch' = config example_epoch \<and>
   iteration example_epoch' = iteration example_epoch + of_nat (Suc 0) \<and>
   (\<exists>y. generations (Suc (Suc 0)) (example_epoch, example_env\<lparr>overflow_checks := False\<rparr>) y)"
proof -
  have "generations (Suc 0) (example_epoch, example_env\<lparr>overflow_checks := False\<rparr>)
      (example_epoch', example_env'\<lparr>overflow_checks := False\<rparr>)"
    using evolve_example_unchecked by (simp add: generations_first)
  moreover have "epoch_inv example_epoch (example_env\<lparr>overflow_checks := False\<rparr>)"
    using example_fair
    by (simp add: epoch_inv_def evolve_pre_def example_epoch_def example_env_def example_config_def
        evaluator_spawn_def genome_ok_def is_ascii_def)
  ultimately show ?thesis
    using generations_invariant by blast
qed

end
