(* ===== verification/Channels.thy ===== *)
theory Channels
  imports Tournament
begin

text \<open>
  The two worker threads of the tournament example behind their channels,
  \<open>src/examples/hello_world.rs\<close>, lines 283 to 398.

  The theories \<open>Observation\<close> and \<open>Tournament\<close> treat a message to a thread as
  a call: \<open>observe\<close> applies the insertion when the genome is sent, \<open>evaluate\<close>
  returns the scored genome. Here the channels are queues and the threads take
  steps of their own, in any interleaving with the steps of the generation
  loop. The theory proves that the calls are what the threads compute: when the
  channel of the observer is drained, its window and its log are those of
  \<open>observe_all\<close> on the genomes offered; a round trip through the evaluator
  ends with the result of \<open>evaluate\<close>, whatever the schedule.
\<close>

subsection \<open>The observer and its channel\<close>

text \<open>
  \<open>obs_channel\<close> holds the genomes sent and not yet received, the oldest first.
  \<open>obs_offered\<close> records every genome passed to \<open>observe\<close>, whether the send
  succeeded or not; the program does not hold it. A send fails when the thread
  has panicked, which drops the receiver and what is left in the channel.
\<close>

record obs_system =
  obs_channel :: "genome list"
  obs_thread :: observer
  obs_logged :: "log_event list"
  obs_offered :: "genome list"

inductive obs_step :: "bool \<Rightarrow> obs_system \<Rightarrow> obs_system \<Rightarrow> bool" for oc where
  obs_send:
    "obs_thread s \<noteq> Dead \<Longrightarrow>
     obs_step oc s (s\<lparr>obs_channel := obs_channel s @ [g], obs_offered := obs_offered s @ [g]\<rparr>)"
| obs_send_failed:
    "obs_thread s = Dead \<Longrightarrow> obs_step oc s (s\<lparr>obs_offered := obs_offered s @ [g]\<rparr>)"
| obs_receive:
    "obs_channel s = g # rest \<Longrightarrow> obs_thread s = Running w \<Longrightarrow>
     window_insert oc w g = Inr (w', logs) \<Longrightarrow>
     obs_step oc s (s\<lparr>obs_channel := rest, obs_thread := Running w',
                        obs_logged := obs_logged s @ logs\<rparr>)"
| obs_panic:
    "obs_channel s = g # rest \<Longrightarrow> obs_thread s = Running w \<Longrightarrow>
     window_insert oc w g = Inl p \<Longrightarrow>
     obs_step oc s (s\<lparr>obs_channel := [], obs_thread := Dead\<rparr>)"

definition obs_init :: "config \<Rightarrow> obs_system" where
  "obs_init params =
     \<lparr>obs_channel = [], obs_thread = observer_spawn params, obs_logged = [], obs_offered = []\<rparr>"

text \<open>
  The invariant: the calls of the synchronous model on the genomes offered give
  the thread and the log that the system reaches once the pending genomes are
  handled; a dead thread has no pending genome.
\<close>

definition obs_inv :: "bool \<Rightarrow> config \<Rightarrow> obs_system \<Rightarrow> bool" where
  "obs_inv oc params s \<longleftrightarrow>
     fst (observe_all oc (observer_spawn params) (obs_offered s)) =
       fst (observe_all oc (obs_thread s) (obs_channel s)) \<and>
     snd (observe_all oc (observer_spawn params) (obs_offered s)) =
       obs_logged s @ snd (observe_all oc (obs_thread s) (obs_channel s)) \<and>
     (obs_thread s = Dead \<longrightarrow> obs_channel s = [])"

subsection \<open>The evaluator and its channels\<close>

text \<open>
  The caller of \<open>evaluate\<close> sends a genome and blocks until it receives one; the
  worker takes a genome from its inbox, scores it and puts it into the outbox.
\<close>

datatype caller = Idle | Waiting genome | Got genome genome | Panicked genome

record eval_system =
  inbox :: "genome list"
  outbox :: "genome list"
  caller :: caller

inductive eval_step :: "evaluator \<Rightarrow> eval_system \<Rightarrow> eval_system \<Rightarrow> bool" for ev where
  ev_send:
    "caller s = Idle \<Longrightarrow> worker_alive ev \<Longrightarrow>
     eval_step ev s (s\<lparr>inbox := inbox s @ [g], caller := Waiting g\<rparr>)"
| ev_send_failed:
    "caller s = Idle \<Longrightarrow> \<not> worker_alive ev \<Longrightarrow> eval_step ev s (s\<lparr>caller := Panicked g\<rparr>)"
| ev_work:
    "inbox s = g # rest \<Longrightarrow> worker_alive ev \<Longrightarrow>
     eval_step ev s (s\<lparr>inbox := rest, outbox := outbox s @ [worker_score (eval_target ev) g]\<rparr>)"
| ev_receive:
    "caller s = Waiting g \<Longrightarrow> outbox s = r # rest \<Longrightarrow>
     eval_step ev s (s\<lparr>outbox := rest, caller := Got g r\<rparr>)"
| ev_return:
    "caller s = Got g r \<Longrightarrow> eval_step ev s (s\<lparr>caller := Idle\<rparr>)"

definition eval_init :: eval_system where
  "eval_init = \<lparr>inbox = [], outbox = [], caller = Idle\<rparr>"

definition eval_inv :: "evaluator \<Rightarrow> eval_system \<Rightarrow> bool" where
  "eval_inv ev s \<longleftrightarrow>
     (case caller s of
        Idle \<Rightarrow> inbox s = [] \<and> outbox s = []
      | Waiting g \<Rightarrow>
          worker_alive ev \<and>
          (inbox s = [g] \<and> outbox s = [] \<or>
           inbox s = [] \<and> outbox s = [worker_score (eval_target ev) g])
      | Got g r \<Rightarrow> inbox s = [] \<and> outbox s = [] \<and> evaluate ev g = Inr r
      | Panicked g \<Rightarrow> inbox s = [] \<and> outbox s = [] \<and> evaluate ev g = Inl ChannelFailure)"

subsection \<open>The observer: the calls are what the thread computes\<close>

inductive_cases obs_stepE: "obs_step oc s s'"

lemma observe_all_snoc:
  "observe_all oc t (xs @ [g]) =
     (let (t', logs) = observe_all oc t xs; (sent, t'', logs') = observe oc t' g
      in (t'', logs @ logs'))"
  by (simp add: observe_all_append split_beta Let_def)

lemma obs_inv_init: "obs_inv oc params (obs_init params)"
  by (simp add: obs_inv_def obs_init_def)

lemma obs_inv_step:
  assumes "obs_step oc s s'" and "obs_inv oc params s"
  shows "obs_inv oc params s'"
  using assms
proof (induction rule: obs_step.induct)
  case (obs_send s g)
  then show ?case
    by (simp add: obs_inv_def observe_all_snoc split_beta Let_def)
next
  case (obs_send_failed s g)
  then show ?case
    by (simp add: obs_inv_def observe_all_snoc split_beta Let_def)
next
  case (obs_receive s g rest w w' logs)
  then show ?case
    by (simp add: obs_inv_def split_beta Let_def observe_def)
next
  case (obs_panic s g rest w p)
  then show ?case
    by (simp add: obs_inv_def split_beta Let_def observe_def)
qed

lemma obs_inv_reachable:
  assumes "(obs_step oc)\<^sup>*\<^sup>* (obs_init params) s"
  shows "obs_inv oc params s"
  using assms by (induction rule: rtranclp_induct) (auto intro: obs_inv_init obs_inv_step)

lemma obs_quiescent:
  assumes "(obs_step oc)\<^sup>*\<^sup>* (obs_init params) s" and "obs_channel s = []"
  shows "observe_all oc (observer_spawn params) (obs_offered s) = (obs_thread s, obs_logged s)"
  using obs_inv_reachable [OF assms(1)] assms(2) by (simp add: obs_inv_def prod_eq_iff)

lemma obs_drains:
  assumes "obs_thread s = Dead \<longrightarrow> obs_channel s = []"
  shows "\<exists>s'. (obs_step oc)\<^sup>*\<^sup>* s s' \<and> obs_channel s' = [] \<and> obs_offered s' = obs_offered s"
  using assms
proof (induction "length (obs_channel s)" arbitrary: s rule: less_induct)
  case less
  show ?case
  proof (cases "obs_channel s")
    case Nil
    then show ?thesis by blast
  next
    case (Cons g rest)
    with less.prems obtain w where w: "obs_thread s = Running w" by (cases "obs_thread s") auto
    show ?thesis
    proof (cases "window_insert oc w g")
      case (Inl p)
      from obs_panic [OF Cons w Inl]
      have "obs_step oc s (s\<lparr>obs_channel := [], obs_thread := Dead\<rparr>)" .
      then show ?thesis by (intro exI [of _ "s\<lparr>obs_channel := [], obs_thread := Dead\<rparr>"]) auto
    next
      case (Inr r)
      obtain w' logs where r: "r = (w', logs)" by (cases r)
      let ?s = "s\<lparr>obs_channel := rest, obs_thread := Running w',
                      obs_logged := obs_logged s @ logs\<rparr>"
      from obs_receive [OF Cons w Inr [unfolded r]] have st: "obs_step oc s ?s" .
      from less.hyps [of ?s] Cons obtain s' where
        "(obs_step oc)\<^sup>*\<^sup>* ?s s'" "obs_channel s' = []" "obs_offered s' = obs_offered ?s"
        by auto
      with st show ?thesis by (intro exI [of _ s']) (auto intro: converse_rtranclp_into_rtranclp)
    qed
  qed
qed

text \<open>
  Claim C11. The observer behind its channel computes what the calls compute: in
  every state that the system reaches, by any interleaving of sends and of steps
  of the thread, the pending genomes can be handled, and once the channel is
  empty the thread and its log are those of \<open>observe_all\<close> on the genomes
  offered, in the order of the calls.
\<close>

theorem observer_channel_refines:
  assumes "(obs_step oc)\<^sup>*\<^sup>* (obs_init params) s"
  shows "\<exists>s'. (obs_step oc)\<^sup>*\<^sup>* s s' \<and> obs_channel s' = [] \<and> obs_offered s' = obs_offered s \<and>
           observe_all oc (observer_spawn params) (obs_offered s) = (obs_thread s', obs_logged s')"
proof -
  from obs_inv_reachable [OF assms] have "obs_thread s = Dead \<longrightarrow> obs_channel s = []"
    by (simp add: obs_inv_def)
  from obs_drains [OF this, of oc] obtain s' where
    s': "(obs_step oc)\<^sup>*\<^sup>* s s'" "obs_channel s' = []" "obs_offered s' = obs_offered s" by blast
  from assms s'(1) have "(obs_step oc)\<^sup>*\<^sup>* (obs_init params) s'" by (rule rtranclp_trans)
  from obs_quiescent [OF this s'(2)] s' show ?thesis by auto
qed

theorem observer_channel_refines_witness:
  "\<exists>s'. (obs_step True)\<^sup>*\<^sup>*
          ((obs_init example_config)\<lparr>obs_channel := [genome_a, genome_b],
             obs_offered := [genome_a, genome_b]\<rparr>) s' \<and>
        obs_channel s' = [] \<and> obs_offered s' = [genome_a, genome_b] \<and>
        observe_all True (observer_spawn example_config) [genome_a, genome_b] =
          (obs_thread s', obs_logged s')"
proof -
  let ?s0 = "obs_init example_config"
  let ?s1 = "?s0\<lparr>obs_channel := [genome_a], obs_offered := [genome_a]\<rparr>"
  let ?s2 = "?s0\<lparr>obs_channel := [genome_a, genome_b], obs_offered := [genome_a, genome_b]\<rparr>"
  have alive: "obs_thread ?s0 \<noteq> Dead"
    by (simp add: obs_init_def observer_spawn_def window_new_def example_config_def)
  from obs_send [of ?s0 True genome_a] alive have "obs_step True ?s0 ?s1"
    by (simp add: obs_init_def)
  moreover from obs_send [of ?s1 True genome_b] alive have "obs_step True ?s1 ?s2"
    by (simp add: obs_init_def)
  ultimately have "(obs_step True)\<^sup>*\<^sup>* ?s0 ?s2" by auto
  from observer_channel_refines [OF this] show ?thesis by simp
qed

subsection \<open>The evaluator: a round trip is a call\<close>

lemma eval_inv_init: "eval_inv ev eval_init"
  by (simp add: eval_inv_def eval_init_def)

lemma eval_inv_step:
  assumes "eval_step ev s s'" and "eval_inv ev s"
  shows "eval_inv ev s'"
  using assms
  by (induction rule: eval_step.induct) (auto simp: eval_inv_def evaluate_def split: caller.splits)

lemma eval_inv_reachable:
  assumes "(eval_step ev)\<^sup>*\<^sup>* eval_init s"
  shows "eval_inv ev s"
  using assms by (induction rule: rtranclp_induct) (auto intro: eval_inv_init eval_inv_step)

lemma eval_waiting_step:
  assumes "eval_inv ev s" and "caller s = Waiting g"
  shows "\<exists>s'. eval_step ev s s'"
proof -
  from assms have alive: "worker_alive ev"
    and boxes: "inbox s = [g] \<and> outbox s = [] \<or>
         inbox s = [] \<and> outbox s = [worker_score (eval_target ev) g]"
    by (simp_all add: eval_inv_def)
  from boxes show ?thesis
  proof
    assume "inbox s = [g] \<and> outbox s = []"
    then have "inbox s = g # []" by simp
    from ev_work [OF this alive] show ?thesis by blast
  next
    assume "inbox s = [] \<and> outbox s = [worker_score (eval_target ev) g]"
    then have "outbox s = worker_score (eval_target ev) g # []" by simp
    from ev_receive [OF assms(2) this] show ?thesis by blast
  qed
qed

lemma eval_waiting_returns:
  assumes "eval_inv ev s" and "caller s = Waiting g"
  shows "\<exists>s'. (eval_step ev)\<^sup>*\<^sup>* s s' \<and> caller s' = Got g (worker_score (eval_target ev) g)"
proof -
  let ?r = "worker_score (eval_target ev) g"
  have recv: "\<exists>s'. eval_step ev t s' \<and> caller s' = Got g ?r"
    if "caller t = Waiting g" "outbox t = [?r]" for t
  proof -
    from that(2) have "outbox t = ?r # []" by simp
    from ev_receive [OF that(1) this] show ?thesis
      by (intro exI [of _ "t\<lparr>outbox := [], caller := Got g ?r\<rparr>"]) simp
  qed
  from assms have alive: "worker_alive ev"
    and boxes: "inbox s = [g] \<and> outbox s = [] \<or> inbox s = [] \<and> outbox s = [?r]"
    by (simp_all add: eval_inv_def)
  from boxes show ?thesis
  proof
    assume a: "inbox s = [g] \<and> outbox s = []"
    let ?t = "s\<lparr>inbox := [], outbox := outbox s @ [?r]\<rparr>"
    from a have "inbox s = g # []" by simp
    from ev_work [OF this alive] have st: "eval_step ev s ?t" .
    from recv [of ?t] assms(2) a obtain s' where "eval_step ev ?t s'" "caller s' = Got g ?r"
      by auto
    with st show ?thesis by (intro exI [of _ s']) auto
  next
    assume "inbox s = [] \<and> outbox s = [?r]"
    with recv [of s] assms(2) show ?thesis by auto
  qed
qed

text \<open>
  Claim C14. A round trip through the evaluator is the call \<open>evaluate\<close>: in
  every state that the caller and the worker reach, by any schedule, a caller
  that has received a genome holds the result of \<open>evaluate\<close>, a caller that
  panicked did so because \<open>evaluate\<close> panics on a failed channel, and a caller
  that waits is answered: the system steps to the state in which it has received
  the scored genome.
\<close>

theorem evaluate_round_trip:
  assumes "(eval_step ev)\<^sup>*\<^sup>* eval_init s"
  shows "(case caller s of
            Idle \<Rightarrow> True
          | Waiting g \<Rightarrow>
              \<exists>s'. (eval_step ev)\<^sup>*\<^sup>* s s' \<and> caller s' = Got g (worker_score (eval_target ev) g)
          | Got g r \<Rightarrow> evaluate ev g = Inr r
          | Panicked g \<Rightarrow> evaluate ev g = Inl ChannelFailure)"
proof (cases "caller s")
  case (Waiting g)
  with eval_waiting_returns [OF eval_inv_reachable [OF assms]] show ?thesis by simp
qed (use eval_inv_reachable [OF assms] in \<open>simp_all add: eval_inv_def\<close>)

theorem evaluate_round_trip_witness:
  "\<exists>s'. (eval_step (evaluator_spawn example_config))\<^sup>*\<^sup>*
          (eval_init\<lparr>inbox := [genome_a], caller := Waiting genome_a\<rparr>) s' \<and>
        caller s' = Got genome_a (worker_score (eval_target (evaluator_spawn example_config)) genome_a)"
proof -
  let ?ev = "evaluator_spawn example_config"
  let ?s = "eval_init\<lparr>inbox := [genome_a], caller := Waiting genome_a\<rparr>"
  from ev_send [of eval_init ?ev genome_a] have "eval_step ?ev eval_init ?s"
    by (simp add: eval_init_def evaluator_spawn_def)
  then have "(eval_step ?ev)\<^sup>*\<^sup>* eval_init ?s" by auto
  from evaluate_round_trip [OF this] show ?thesis by simp
qed

end
