(* ===== verification/Evaluation.thy ===== *)
theory Evaluation
  imports Profiler Rng
begin

text \<open>
  The fitness functions and the evaluator of the ROP search,
  \<open>src/roper/evaluation.rs\<close>.

  A fitness function takes a creature that carries the profile of its runs,
  the frequency sketch and the configuration, and returns the creature with a
  weighted fitness: a table of named scores. \<open>code_coverage_ff\<close> also feeds the
  addresses that the creature visited into the sketch. The evaluator has the
  hatchery execute creatures and scores them with the one fitness function it
  was spawned with.

  The types \<open>Creature\<close>, \<open>Weighted\<close>, \<open>CountMinSketch\<close>, \<open>Config\<close>,
  \<open>RegisterPattern\<close> and \<open>Hatchery\<close> are not under \<open>src/\<close>. They are modelled by
  what this file does with them: a creature is an extensible record of the three
  fields that are read or written here, so that every other field is kept; the
  hatchery and the register pattern are records of the functions called. The
  sketch is a count-min sketch as the spec describes it. What the source leaves
  to the hash tables, the order in which a \<open>HashSet\<close> or a \<open>HashMap\<close> yields its
  elements, is a field of the environment \<open>ff_env\<close>, together with the build
  profile and the static memory image.

  The theory proves that the sketch refines a multiset of addresses, never
  undercounts and does not depend on the order of the insertions; it gives the
  fitness functions in closed form, with their panics and the bounds of their
  scores; it bounds what the order of a hash set and what the creatures scored
  earlier in a batch do to the score \<open>code_frequency\<close>; it shows when a batch
  is scored against one state of the sketch; it says when the registers handed
  to the hatchery hold a register twice.
\<close>

subsection \<open>Weighted fitness and creatures\<close>

record 'w weighted =
  weights :: 'w
  scores :: "string \<rightharpoonup> fp"

definition weighted_new :: "'w \<Rightarrow> 'w weighted" where
  "weighted_new w = \<lparr>weights = w, scores = Map.empty\<rparr>"

definition weighted_insert :: "string \<Rightarrow> fp \<Rightarrow> 'w weighted \<Rightarrow> 'w weighted" where
  "weighted_insert name score self = self\<lparr>scores := (scores self)(name \<mapsto> score)\<rparr>"

record ('r, 's, 'w) creature =
  creature_profile :: "('r, 's) profile option"
  creature_tag :: u64
  creature_fitness :: "'w weighted option"

definition set_fitness ::
  "('r, 's, 'w, 'z) creature_scheme \<Rightarrow> 'w weighted \<Rightarrow> ('r, 's, 'w, 'z) creature_scheme" where
  "set_fitness self f = self\<lparr>creature_fitness := Some f\<rparr>"

subsection \<open>The frequency sketch\<close>

text \<open>
  A count-min sketch: one row of counters for each hash function. An insertion
  increments one counter in each row, a query returns the least of the counters
  of its argument.
\<close>

record count_min_sketch =
  cms_hash :: "nat \<Rightarrow> u64 \<Rightarrow> nat"
  cms_width :: nat
  cms_table :: "nat list list"

definition cms_new :: "(nat \<Rightarrow> u64 \<Rightarrow> nat) \<Rightarrow> nat \<Rightarrow> nat \<Rightarrow> count_min_sketch" where
  "cms_new h depth width =
     \<lparr>cms_hash = h, cms_width = width, cms_table = replicate depth (replicate width 0)\<rparr>"

definition cms_slot :: "count_min_sketch \<Rightarrow> nat \<Rightarrow> u64 \<Rightarrow> nat" where
  "cms_slot self i x = cms_hash self i x mod cms_width self"

definition cms_insert :: "u64 \<Rightarrow> count_min_sketch \<Rightarrow> count_min_sketch" where
  "cms_insert x self =
     self\<lparr>cms_table :=
       map (\<lambda>(i, row). row[cms_slot self i x := Suc (row ! cms_slot self i x)])
         (enumerate 0 (cms_table self))\<rparr>"

definition cms_estimate :: "count_min_sketch \<Rightarrow> u64 \<Rightarrow> nat" where
  "cms_estimate self x =
     (if cms_table self = [] then 0
      else min_list (map (\<lambda>(i, row). row ! cms_slot self i x) (enumerate 0 (cms_table self))))"

definition cms_query :: "count_min_sketch \<Rightarrow> u64 \<Rightarrow> fp" where
  "cms_query self x = fp_of_nat (cms_estimate self x)"

subsection \<open>Configuration and environment\<close>

text \<open>
  A register pattern is used in two ways: its distance from a register state is
  a score, and its conversion to the registers of the architecture, which may
  fail, names the registers to read.
\<close>

record ('r, 's) pattern =
  pattern_registers :: "'r list option"
  distance_from_register_state :: "('r, 's) register_state \<Rightarrow> fp"

record ('r, 's, 'w) roper_config =
  fitness_weights :: 'w
  register_pattern :: "('r, 's) pattern option"
  output_registers :: "string list"

text \<open>
  The environment of a fitness function. \<open>register_words\<close> is the field \<open>.0\<close> of
  a register state: a table that gives a vector of words for each register.
  The register state of the model is the pair of arguments it was built from,
  so the table is a function of that pair.
\<close>

record ('r, 's, 'i) ff_env =
  checks :: bool
  memory :: "'i memory_image"
  set_order :: "u64 set \<Rightarrow> u64 list"
  keys_order :: "('r \<rightharpoonup> u64 list) \<Rightarrow> 'r list"
  register_words :: "('r, 's) register_state \<Rightarrow> ('r \<rightharpoonup> u64 list)"

datatype ff_event = LogNoRegisterPattern

subsection \<open>Code coverage\<close>

fun visit_path :: "bool \<Rightarrow> block list \<Rightarrow> u64 set \<Rightarrow> u64 set result" where
  "visit_path oc [] visited = Inr visited"
| "visit_path oc (b # path) visited =
     and_then (add_oc oc (entry b) (block_size b)) (\<lambda>e.
       visit_path oc path (fold insert (range_u64 (entry b) e) visited))"

fun visit_paths :: "bool \<Rightarrow> block list list \<Rightarrow> u64 set \<Rightarrow> u64 set result" where
  "visit_paths oc [] visited = Inr visited"
| "visit_paths oc (path # rest) visited =
     and_then (visit_path oc path visited) (visit_paths oc rest)"

fun freq_loop :: "u64 list \<Rightarrow> count_min_sketch \<Rightarrow> fp \<Rightarrow> count_min_sketch \<times> fp" where
  "freq_loop [] sketch freq_score = (sketch, freq_score)"
| "freq_loop (addr # addrs) sketch freq_score =
     (let sketch' = cms_insert addr sketch
      in freq_loop addrs sketch' (fp_add freq_score (cms_query sketch' addr)))"

definition code_coverage_ff ::
  "('r, 's, 'i) ff_env \<Rightarrow> ('r, 's, 'w, 'z) creature_scheme \<Rightarrow> count_min_sketch \<Rightarrow>
   ('r, 's, 'w, 'c) roper_config_scheme \<Rightarrow>
   (('r, 's, 'w, 'z) creature_scheme \<times> count_min_sketch) result" where
  "code_coverage_ff env creature sketch config =
     (case creature_profile creature of
        None \<Rightarrow> Inr (creature, sketch)
      | Some profile \<Rightarrow>
          and_then (visit_paths (checks env) (basic_block_path_iterator profile) {})
            (\<lambda>addresses_visited.
          let (sketch', freq_score) =
                freq_loop (set_order env addresses_visited) sketch (Fin 0);
              num_addr_visit = fp_of_nat (card addresses_visited);
              avg_freq = (if fp_less num_addr_visit (Fin 1) then Fin 1
                          else fp_div freq_score num_addr_visit);
              code_size = size_of_executable_memory (memory env);
              code_coverage = fp_sub (Fin 1) (fp_div num_addr_visit (fp_of_nat (unat code_size)));
              fitness1 = weighted_insert ''code_coverage'' code_coverage
                           (weighted_new (fitness_weights config));
              fitness2 = weighted_insert ''code_frequency'' avg_freq fitness1;
              gadgets = length (gadgets_executed profile);
              fitness3 = weighted_insert ''gadgets_executed'' (fp_of_nat gadgets) fitness2
          in and_then (mem_write_ratio (checks env) (size_of_writeable_memory (memory env)) profile)
               (\<lambda>ratio.
                  Inr (set_fitness creature
                         (weighted_insert ''mem_ratio_written'' (fp_sub (Fin 1) ratio) fitness3),
                       sketch'))))"

subsection \<open>Register pattern and register conjunction\<close>

text \<open>
  \<open>register_pattern_ff\<close> reads the faults of a profile as a table from a fault
  to a count and sums the counts, \<open>profile.cpu_errors.values().sum::<usize>()\<close>,
  while \<open>profiler.rs\<close> keeps a vector with the optional fault of each run.
  \<open>error_table\<close> is the table of such a vector: every fault that occurs in it,
  with the number of runs that ended in that fault. \<open>crash_count\<close> is the sum
  of the counts of a table, as a \<open>usize\<close>.
\<close>

definition error_table :: "uc_error option list \<Rightarrow> (uc_error \<times> nat) list" where
  "error_table errors =
     (let faults = List.map_filter (\<lambda>e. e) errors
      in map (\<lambda>e. (e, count_list faults e)) (remdups faults))"

definition crash_count :: "bool \<Rightarrow> (uc_error \<times> nat) list \<Rightarrow> nat result" where
  "crash_count oc table = sum_usize oc (map snd table)"

definition register_pattern_ff ::
  "('r, 's, 'i) ff_env \<Rightarrow> ('r, 's, 'w, 'z) creature_scheme \<Rightarrow> count_min_sketch \<Rightarrow>
   ('r, 's, 'w, 'c) roper_config_scheme \<Rightarrow>
   (('r, 's, 'w, 'z) creature_scheme \<times> count_min_sketch \<times> ff_event list) result" where
  "register_pattern_ff env creature sketch config =
     (case creature_profile creature of
        None \<Rightarrow> Inr (creature, sketch, [])
      | Some profile \<Rightarrow>
          (case register_pattern config of
             None \<Rightarrow> Inr (creature, sketch, [LogNoRegisterPattern])
           | Some pat \<Rightarrow>
               and_then (vec_get (profile.registers profile) 0) (\<lambda>state.
               let register_error = distance_from_register_state pat state;
                   fitness1 = weighted_insert ''register_error'' register_error
                                (weighted_new (fitness_weights config))
               in and_then
                    (mem_write_ratio (checks env) (size_of_writeable_memory (memory env)) profile)
                    (\<lambda>ratio.
               let fitness2 = weighted_insert ''mem_ratio_written'' (fp_sub (Fin 1) ratio) fitness1
               in and_then (crash_count (checks env) (error_table (cpu_errors profile)))
                    (\<lambda>crashes.
               let fitness3 = weighted_insert ''crash_count'' (fp_of_nat crashes) fitness2;
                   gadgets = length (gadgets_executed profile);
                   fitness4 = weighted_insert ''gadgets_executed'' (fp_of_nat gadgets) fitness3
               in Inr (set_fitness creature fitness4, sketch, []))))))"

text \<open>
  The fold \<open>|a, b| a & b[0]\<close> over the vectors of the table, in the order in
  which the hash map yields them; the index panics on a vector without a word.
\<close>

fun conjunction :: "u64 list list \<Rightarrow> u64 \<Rightarrow> u64 result" where
  "conjunction [] a = Inr a"
| "conjunction (b # bs) a = and_then (vec_get b 0) (\<lambda>w. conjunction bs (a AND w))"

definition register_conjunction_ff ::
  "('r, 's, 'i) ff_env \<Rightarrow> ('r, 's, 'w, 'z) creature_scheme \<Rightarrow> count_min_sketch \<Rightarrow>
   ('r, 's, 'w, 'c) roper_config_scheme \<Rightarrow>
   (('r, 's, 'w, 'z) creature_scheme \<times> count_min_sketch) result" where
  "register_conjunction_ff env creature sketch config =
     (case creature_profile creature of
        None \<Rightarrow> Inr (creature, sketch)
      | Some profile \<Rightarrow>
          if profile.registers profile = [] then Inr (creature, sketch)
          else
            let words = register_words env (last (profile.registers profile))
            in and_then
                 (conjunction (List.map_filter words (keys_order env words)) 0xffffffffffffffff)
                 (\<lambda>conj.
            let score = fp_of_nat (count_zeros conj);
                fitness1 = weighted_insert ''zeroes'' score (weighted_new (fitness_weights config));
                fitness2 = weighted_insert ''gadgets_executed''
                             (fp_of_nat (length (gadgets_executed profile))) fitness1
            in and_then
                 (mem_write_ratio (checks env) (size_of_writeable_memory (memory env)) profile)
                 (\<lambda>ratio.
                    Inr (set_fitness creature
                           (weighted_insert ''mem_ratio_written'' ratio fitness2),
                         sketch))))"

subsection \<open>The evaluator\<close>

text \<open>
  The hatchery executes one creature or a batch and returns each creature with
  the profile of its runs, or fails. \<open>record_genetic_frequency\<close> is a method of
  the creature that updates the sketch.
\<close>

record ('c, 'p) hatchery =
  execute :: "'c \<Rightarrow> ('c \<times> 'p) option"
  execute_batch :: "'c list \<Rightarrow> ('c \<times> 'p) list option"

type_synonym ('c, 'k) fitness_fn = "'c \<Rightarrow> count_min_sketch \<Rightarrow> 'k \<Rightarrow> ('c \<times> count_min_sketch) result"

record ('r, 's, 'w, 'z, 'k) roper_evaluator =
  ev_config :: 'k
  ev_hatchery :: "(('r, 's, 'w, 'z) creature_scheme, ('r, 's) profile) hatchery"
  ev_sketch :: count_min_sketch
  fitness_fn :: "(('r, 's, 'w, 'z) creature_scheme, 'k) fitness_fn"

definition gen_u64 :: "rng \<Rightarrow> u64 \<times> rng" where
  "gen_u64 g = gen_usize g"

definition roper_evaluate ::
  "('r, 's, 'w, 'z, 'k) roper_evaluator \<Rightarrow> ('r, 's, 'w, 'z) creature_scheme \<Rightarrow> rng \<Rightarrow>
   (('r, 's, 'w, 'z) creature_scheme \<times> ('r, 's, 'w, 'z, 'k) roper_evaluator \<times> rng) result" where
  "roper_evaluate self creature g =
     (case execute (ev_hatchery self) creature of
        None \<Rightarrow> Inl ExpectFailed
      | Some (creature1, profile) \<Rightarrow>
          let creature2 = creature1\<lparr>creature_profile := Some profile\<rparr>;
              (t, g') = gen_u64 g;
              creature3 = creature2\<lparr>creature_tag := t\<rparr>
          in and_then (fitness_fn self creature3 (ev_sketch self) (ev_config self))
               (\<lambda>(scored, sketch). Inr (scored, self\<lparr>ev_sketch := sketch\<rparr>, g')))"

fun score_all ::
  "('c, 'k) fitness_fn \<Rightarrow> 'k \<Rightarrow> 'c list \<Rightarrow> count_min_sketch \<Rightarrow>
   ('c list \<times> count_min_sketch) result" where
  "score_all f config [] sketch = Inr ([], sketch)"
| "score_all f config (creature # rest) sketch =
     and_then (f creature sketch config) (\<lambda>(scored, sketch1).
     and_then (score_all f config rest sketch1) (\<lambda>(batch, sketch2).
       Inr (scored # batch, sketch2)))"

fun record_frequencies ::
  "('c \<Rightarrow> count_min_sketch \<Rightarrow> 'c \<times> count_min_sketch) \<Rightarrow> 'c list \<Rightarrow> count_min_sketch \<Rightarrow>
   'c list \<times> count_min_sketch" where
  "record_frequencies rgf [] sketch = ([], sketch)"
| "record_frequencies rgf (c # cs) sketch =
     (let (c', sketch1) = rgf c sketch;
          (cs', sketch2) = record_frequencies rgf cs sketch1
      in (c' # cs', sketch2))"

definition eval_pipeline ::
  "(('r, 's, 'w, 'z) creature_scheme \<Rightarrow> count_min_sketch \<Rightarrow>
      ('r, 's, 'w, 'z) creature_scheme \<times> count_min_sketch) \<Rightarrow>
   ('r, 's, 'w, 'z, 'k) roper_evaluator \<Rightarrow> ('r, 's, 'w, 'z) creature_scheme list \<Rightarrow>
   (('r, 's, 'w, 'z) creature_scheme list \<times> ('r, 's, 'w, 'z, 'k) roper_evaluator) result" where
  "eval_pipeline record_genetic_frequency self inbound =
     (let (old_meat, fresh_meat) = partition (\<lambda>c. creature_profile c \<noteq> None) inbound
      in case execute_batch (ev_hatchery self) fresh_meat of
           None \<Rightarrow> Inl ExpectFailed
         | Some executed \<Rightarrow>
             and_then
               (score_all (fitness_fn self) (ev_config self)
                  (map (\<lambda>(creature, profile). creature\<lparr>creature_profile := Some profile\<rparr>) executed
                   @ old_meat)
                  (ev_sketch self))
               (\<lambda>(batch, sketch).
                  let (batch', sketch') = record_frequencies record_genetic_frequency batch sketch
                  in Inr (batch', self\<lparr>ev_sketch := sketch'\<rparr>)))"

text \<open>
  The registers that \<open>spawn\<close> asks the hatchery to read: the output registers of
  the configuration, parsed, followed by the registers of the pattern, with
  neighbouring duplicates removed.
\<close>

fun parse_registers :: "(string \<Rightarrow> 'r option) \<Rightarrow> string list \<Rightarrow> 'r list result" where
  "parse_registers parse [] = Inr []"
| "parse_registers parse (s # ss) =
     (case parse s of
        None \<Rightarrow> Inl ExpectFailed
      | Some r \<Rightarrow> and_then (parse_registers parse ss) (\<lambda>rs. Inr (r # rs)))"

definition spawn_output_registers ::
  "(string \<Rightarrow> 'r option) \<Rightarrow> ('r, 's, 'w, 'c) roper_config_scheme \<Rightarrow> 'r list result" where
  "spawn_output_registers parse config =
     and_then (parse_registers parse (output_registers config)) (\<lambda>out_reg.
       case register_pattern config of
         None \<Rightarrow> Inr out_reg
       | Some pat \<Rightarrow>
           (case pattern_registers pat of
              None \<Rightarrow> Inl ExpectFailed
            | Some regs_in_pat \<Rightarrow> Inr (remdups_adj (out_reg @ regs_in_pat))))"

text \<open>
  \<open>spawn\<close> builds the evaluator. The parsers, the random register state, the
  constructor of the hatchery and the constructor of the sketch belong to other
  modules; they are the fields of \<open>spawn_env\<close>.
\<close>

record ('r, 's, 'w, 'z, 'c) spawn_env =
  parse_register :: "string \<Rightarrow> 'r option"
  parse_register_pattern ::
    "('r, 's, 'w, 'c) roper_config_scheme \<Rightarrow> ('r, 's, 'w, 'c) roper_config_scheme"
  random_register_state :: "'r list \<Rightarrow> rng \<Rightarrow> ('r \<rightharpoonup> u64) \<times> rng"
  hatchery_new ::
    "('r, 's, 'w, 'c) roper_config_scheme \<Rightarrow> ('r \<rightharpoonup> u64) list \<Rightarrow> 'r list \<Rightarrow>
     (('r, 's, 'w, 'z) creature_scheme, ('r, 's) profile) hatchery"
  sketch_new :: "('r, 's, 'w, 'c) roper_config_scheme \<Rightarrow> count_min_sketch"

definition roper_spawn ::
  "('r, 's, 'w, 'z, 'c) spawn_env \<Rightarrow> ('r, 's, 'w, 'c) roper_config_scheme \<Rightarrow>
   (('r, 's, 'w, 'z) creature_scheme, ('r, 's, 'w, 'c) roper_config_scheme) fitness_fn \<Rightarrow> rng \<Rightarrow>
   (('r, 's, 'w, 'z, ('r, 's, 'w, 'c) roper_config_scheme) roper_evaluator \<times> rng) result" where
  "roper_spawn senv config ff g =
     (let config1 = parse_register_pattern senv config
      in and_then (spawn_output_registers (parse_register senv) config1) (\<lambda>out_regs.
           let (inputs, g') = random_register_state senv out_regs g;
               hatchery = hatchery_new senv config1 [inputs] out_regs;
               sketch = sketch_new senv config1
           in Inr (\<lparr>ev_config = config1, ev_hatchery = hatchery, ev_sketch = sketch,
                     fitness_fn = ff\<rparr>, g')))"

subsection \<open>Specification level: what the sketch represents\<close>

text \<open>
  A sketch represents a multiset of addresses when it has a row and a column and
  every counter holds the number of elements of the multiset that its row hashes
  to its column.
\<close>

definition cms_row_counts :: "count_min_sketch \<Rightarrow> u64 multiset \<Rightarrow> nat \<Rightarrow> nat list" where
  "cms_row_counts s M i =
     map (\<lambda>j. size (filter_mset (\<lambda>x. cms_slot s i x = j) M)) [0..<cms_width s]"

definition cms_rep :: "count_min_sketch \<Rightarrow> u64 multiset \<Rightarrow> bool" where
  "cms_rep s M \<longleftrightarrow> 0 < cms_width s \<and> cms_table s \<noteq> [] \<and>
     cms_table s = map (cms_row_counts s M) [0..<length (cms_table s)]"

subsection \<open>Specification level: the scores in closed form\<close>

text \<open>
  The addresses that a profile visited and wrote to, whether its blocks and its
  writes stay below \<open>2 ^ 64\<close>, and the sum of the estimates that \<open>freq_loop\<close>
  reads while it inserts a list of addresses.
\<close>

definition visited :: "('r, 's) profile \<Rightarrow> u64 set" where
  "visited p = (\<Union>b \<in> set (concat (paths p)). block_addresses b)"

definition written :: "('r, 's) profile \<Rightarrow> u64 set" where
  "written p = (\<Union>e \<in> set (concat (write_logs p)). entry_bytes e)"

definition profile_fits :: "('r, 's) profile \<Rightarrow> bool" where
  "profile_fits p \<longleftrightarrow>
     list_all block_fits (concat (paths p)) \<and> list_all entry_fits (concat (write_logs p))"

fun freq_sum :: "u64 list \<Rightarrow> count_min_sketch \<Rightarrow> nat" where
  "freq_sum [] s = 0"
| "freq_sum (x # xs) s = cms_estimate (cms_insert x s) x + freq_sum xs (cms_insert x s)"

text \<open>
  The iteration orders of the environment are those of a hash table when they
  yield every element once.
\<close>

definition order_ok :: "('r, 's, 'i) ff_env \<Rightarrow> u64 set \<Rightarrow> bool" where
  "order_ok env S \<longleftrightarrow> mset (set_order env S) = mset_set S"

definition keys_ok :: "('r, 's, 'i) ff_env \<Rightarrow> ('r \<rightharpoonup> u64 list) \<Rightarrow> bool" where
  "keys_ok env regs \<longleftrightarrow> set (keys_order env regs) = dom regs"

definition first_words :: "('r \<rightharpoonup> u64 list) \<Rightarrow> ('r \<rightharpoonup> u64)" where
  "first_words words = (\<lambda>r. map_option hd (words r))"

definition zero_bits :: "('r \<rightharpoonup> u64) \<Rightarrow> nat set" where
  "zero_bits regs = {i. i < 64 \<and> (\<exists>b \<in> ran regs. \<not> bit b i)}"

definition faulted :: "('r, 's) profile \<Rightarrow> nat" where
  "faulted p = length (filter (\<lambda>e. e \<noteq> None) (cpu_errors p))"

definition coverage_scores ::
  "('r, 's, 'i) ff_env \<Rightarrow> count_min_sketch \<Rightarrow> ('r, 's) profile \<Rightarrow> string \<rightharpoonup> fp" where
  "coverage_scores env sketch p =
     [''code_coverage'' \<mapsto>
        fp_sub (Fin 1) (fp_div (fp_of_nat (card (visited p)))
                               (fp_of_nat (unat (size_of_executable_memory (memory env))))),
      ''code_frequency'' \<mapsto>
        (if visited p = {} then Fin 1
         else fp_div (fp_of_nat (freq_sum (set_order env (visited p)) sketch))
                     (fp_of_nat (card (visited p)))),
      ''gadgets_executed'' \<mapsto> fp_of_nat (length (gadgets_executed p)),
      ''mem_ratio_written'' \<mapsto>
        fp_sub (Fin 1) (fp_div (fp_of_nat (card (written p)))
                               (fp_of_nat (unat (size_of_writeable_memory (memory env)))))]"

definition pattern_scores ::
  "('r, 's, 'i) ff_env \<Rightarrow> ('r, 's) pattern \<Rightarrow> ('r, 's) profile \<Rightarrow> string \<rightharpoonup> fp" where
  "pattern_scores env pat p =
     [''register_error'' \<mapsto> distance_from_register_state pat (hd (profile.registers p)),
      ''mem_ratio_written'' \<mapsto>
        fp_sub (Fin 1) (fp_div (fp_of_nat (card (written p)))
                               (fp_of_nat (unat (size_of_writeable_memory (memory env))))),
      ''crash_count'' \<mapsto> fp_of_nat (faulted p),
      ''gadgets_executed'' \<mapsto> fp_of_nat (length (gadgets_executed p))]"

definition conjunction_scores :: "('r, 's, 'i) ff_env \<Rightarrow> ('r, 's) profile \<Rightarrow> string \<rightharpoonup> fp" where
  "conjunction_scores env p =
     [''zeroes'' \<mapsto>
        fp_of_nat (card (zero_bits
          (first_words (register_words env (last (profile.registers p)))))),
      ''gadgets_executed'' \<mapsto> fp_of_nat (length (gadgets_executed p)),
      ''mem_ratio_written'' \<mapsto>
        fp_div (fp_of_nat (card (written p)))
               (fp_of_nat (unat (size_of_writeable_memory (memory env))))]"

subsection \<open>Examples\<close>

text \<open>
  A creature whose one run executed the block of three bytes at \<open>0x1000\<close>; a
  sketch of two rows and two columns in which \<open>0x1000\<close> collides with \<open>0x1001\<close>
  in the first row and with \<open>0x1002\<close> in the second; an environment that
  iterates in ascending order and one that iterates in descending order.
\<close>

definition example_profile :: "(nat, nat) profile" where
  "example_profile =
     collate [profiler_default\<lparr>block_log := [\<lparr>entry = 0x1000, block_size = 3\<rparr>],
                profiler.registers := [0 \<mapsto> 0xff00, 1 \<mapsto> 0x0ff0]\<rparr>]"

definition example_creature :: "(nat, nat, unit) creature" where
  "example_creature =
     \<lparr>creature_profile = Some example_profile, creature_tag = 0, creature_fitness = None\<rparr>"

definition example_hash :: "nat \<Rightarrow> u64 \<Rightarrow> nat" where
  "example_hash i x =
     (if i = 0 then (if x = 0x1002 then 1 else 0) else (if x = 0x1001 then 1 else 0))"

definition example_sketch :: count_min_sketch where
  "example_sketch = cms_new example_hash 2 2"

definition example_config :: "(nat, nat, unit) roper_config" where
  "example_config = \<lparr>fitness_weights = (), register_pattern = None, output_registers = []\<rparr>"

definition example_ff_env :: "(nat, nat, unit) ff_env" where
  "example_ff_env =
     \<lparr>checks = True,
      memory = \<lparr>size_of_executable_memory = 16, size_of_writeable_memory = 8,
                try_dereference = (\<lambda>_. None), disassemble_at = (\<lambda>_ _. None)\<rparr>,
      set_order = sorted_list_of_set, keys_order = (\<lambda>m. sorted_list_of_set (dom m)),
      register_words = (\<lambda>(regs, mem). map_option (\<lambda>v. [v]) \<circ> regs)\<rparr>"

definition example_ff_env' :: "(nat, nat, unit) ff_env" where
  "example_ff_env' = example_ff_env\<lparr>set_order := rev \<circ> sorted_list_of_set\<rparr>"

definition example_pattern :: "(nat, nat) pattern" where
  "example_pattern =
     \<lparr>pattern_registers = Some [0], distance_from_register_state = (\<lambda>_. Fin 0)\<rparr>"

definition example_parse :: "string \<Rightarrow> nat option" where
  "example_parse s = (if s = ''RAX'' then Some 0 else if s = ''RBX'' then Some 1 else None)"

definition example_pattern_config :: "(nat, nat, unit) roper_config" where
  "example_pattern_config =
     \<lparr>fitness_weights = (), register_pattern = Some example_pattern,
      output_registers = [''RAX'', ''RBX'']\<rparr>"

definition example_evaluator ::
  "(nat, nat, unit, unit, (nat, nat, unit) roper_config) roper_evaluator" where
  "example_evaluator =
     \<lparr>ev_config = example_config,
      ev_hatchery = \<lparr>execute = (\<lambda>c. Some (c, example_profile)),
                     execute_batch = (\<lambda>cs. Some (map (\<lambda>c. (c, example_profile)) cs))\<rparr>,
      ev_sketch = example_sketch,
      fitness_fn = register_conjunction_ff example_ff_env\<rparr>"

subsection \<open>The sketch refines a multiset\<close>

lemma cms_slot_less: "0 < cms_width s \<Longrightarrow> cms_slot s i x < cms_width s"
  by (simp add: cms_slot_def)

lemma cms_insert_fields [simp]:
  "cms_hash (cms_insert x s) = cms_hash s"
  "cms_width (cms_insert x s) = cms_width s"
  "length (cms_table (cms_insert x s)) = length (cms_table s)"
  "cms_slot (cms_insert x s) = cms_slot s"
  by (simp_all add: cms_insert_def cms_slot_def fun_eq_iff)

lemma cms_new_rep: "0 < depth \<Longrightarrow> 0 < width \<Longrightarrow> cms_rep (cms_new h depth width) {#}"
  by (auto simp: cms_rep_def cms_new_def cms_row_counts_def intro!: nth_equalityI)

lemma cms_row_counts_add:
  assumes "0 < cms_width s"
  shows "cms_row_counts s (add_mset x M) i =
     (cms_row_counts s M i)[cms_slot s i x := Suc (cms_row_counts s M i ! cms_slot s i x)]"
  using cms_slot_less [OF assms, of i x]
  by (auto simp: cms_row_counts_def intro!: nth_equalityI simp: nth_list_update)

lemma cms_insert_rep:
  assumes "cms_rep s M"
  shows "cms_rep (cms_insert x s) (add_mset x M)"
proof -
  from assms have w: "0 < cms_width s" and ne: "cms_table s \<noteq> []"
    and t: "cms_table s = map (cms_row_counts s M) [0..<length (cms_table s)]"
    by (simp_all add: cms_rep_def)
  have "cms_table (cms_insert x s) =
      map (\<lambda>i. (cms_table s ! i)[cms_slot s i x := Suc (cms_table s ! i ! cms_slot s i x)])
        [0..<length (cms_table s)]"
    by (auto simp: cms_insert_def intro!: nth_equalityI simp: nth_enumerate_eq)
  also have "\<dots> = map (cms_row_counts (cms_insert x s) (add_mset x M)) [0..<length (cms_table s)]"
  proof (rule map_cong [OF refl])
    fix i assume "i \<in> set [0..<length (cms_table s)]"
    then have "cms_table s ! i = cms_row_counts s M i"
      by (subst t) simp
    then show "(cms_table s ! i)[cms_slot s i x := Suc (cms_table s ! i ! cms_slot s i x)] =
        cms_row_counts (cms_insert x s) (add_mset x M) i"
      using cms_row_counts_add [OF w, of x M i] by (simp add: cms_row_counts_def)
  qed
  finally show ?thesis
    using w ne by (simp add: cms_rep_def)
qed

lemma fold_cms_insert_rep:
  "cms_rep s M \<Longrightarrow> cms_rep (fold cms_insert xs s) (M + mset xs)"
proof (induction xs arbitrary: s M)
  case Nil
  then show ?case by simp
next
  case (Cons x xs)
  from Cons.IH [OF cms_insert_rep [OF Cons.prems, of x]] show ?case by simp
qed

text \<open>
  The sketch refines a multiset counter: a new sketch with at least one
  row and one column represents the empty multiset, and after any sequence of
  insertions it represents the multiset of the addresses inserted.
\<close>

theorem cms_refines_multiset:
  assumes "0 < depth" and "0 < width"
  shows "cms_rep (fold cms_insert xs (cms_new h depth width)) (mset xs)"
  using fold_cms_insert_rep [OF cms_new_rep [OF assms], of xs h] by simp

theorem cms_refines_multiset_witness:
  "cms_rep (fold cms_insert [0x1000, 0x1001, 0x1000] (cms_new example_hash 2 2))
     (mset [0x1000, 0x1001, 0x1000])"
  by (rule cms_refines_multiset) simp_all

text \<open>
  The estimate of an address is the least, over the rows, of the number of
  elements that the row does not tell apart from it.
\<close>

lemma cms_estimate_rep:
  assumes "cms_rep s M"
  shows "cms_estimate s x =
     Min ((\<lambda>i. size (filter_mset (\<lambda>y. cms_slot s i y = cms_slot s i x) M)) `
          {0..<length (cms_table s)})"
proof -
  from assms have w: "0 < cms_width s" and ne: "cms_table s \<noteq> []"
    and t: "cms_table s = map (cms_row_counts s M) [0..<length (cms_table s)]"
    by (simp_all add: cms_rep_def)
  have "map (\<lambda>(i, row). row ! cms_slot s i x) (enumerate 0 (cms_table s)) =
      map (\<lambda>i. size (filter_mset (\<lambda>y. cms_slot s i y = cms_slot s i x) M))
        [0..<length (cms_table s)]"
  proof (rule nth_equalityI)
    show "length (map (\<lambda>(i, row). row ! cms_slot s i x) (enumerate 0 (cms_table s))) =
        length (map (\<lambda>i. size (filter_mset (\<lambda>y. cms_slot s i y = cms_slot s i x) M))
          [0..<length (cms_table s)])" by simp
  next
    fix i assume "i < length (map (\<lambda>(i, row). row ! cms_slot s i x) (enumerate 0 (cms_table s)))"
    then have i: "i < length (cms_table s)" by simp
    then have "cms_table s ! i = cms_row_counts s M i" by (subst t) simp
    with i cms_slot_less [OF w, of i x]
    show "map (\<lambda>(i, row). row ! cms_slot s i x) (enumerate 0 (cms_table s)) ! i =
        map (\<lambda>i. size (filter_mset (\<lambda>y. cms_slot s i y = cms_slot s i x) M))
          [0..<length (cms_table s)] ! i"
      by (simp add: nth_enumerate_eq cms_row_counts_def)
  qed
  with ne show ?thesis
    by (simp add: cms_estimate_def min_list_Min)
qed

lemma cms_estimate_ge_count:
  assumes "cms_rep s M"
  shows "count M x \<le> cms_estimate s x"
proof -
  from assms have ne: "cms_table s \<noteq> []" by (simp add: cms_rep_def)
  have "count M x \<le> size (filter_mset (\<lambda>y. cms_slot s i y = cms_slot s i x) M)" for i
    using count_le_size [of "filter_mset (\<lambda>y. cms_slot s i y = cms_slot s i x) M" x]
    by simp
  with ne show ?thesis
    by (simp add: cms_estimate_rep [OF assms])
qed

lemma cms_estimate_le_size:
  assumes "cms_rep s M"
  shows "cms_estimate s x \<le> size M"
proof -
  from assms have ne: "cms_table s \<noteq> []" by (simp add: cms_rep_def)
  then have "0 \<in> {0..<length (cms_table s)}" by simp
  then have "cms_estimate s x \<le> size (filter_mset (\<lambda>y. cms_slot s 0 y = cms_slot s 0 x) M)"
    unfolding cms_estimate_rep [OF assms] by (intro Min_le) auto
  also have "\<dots> \<le> size M" by (rule size_filter_mset_lesseq)
  finally show ?thesis .
qed

lemma freq_loop_fst: "fst (freq_loop xs s f) = fold cms_insert xs s"
  by (induction xs arbitrary: s f) (simp_all add: Let_def)

text \<open>
  Claim C7. The sketch never undercounts: after the frequency loop of
  \<open>code_coverage_ff\<close> has inserted a list of addresses into a sketch that
  represented \<open>M\<close>, the estimate of any address is at least the number of times
  it was inserted, before or by the loop, and at most the number of all
  insertions.
\<close>

theorem cms_estimate_bounds:
  assumes "cms_rep s M"
  shows "count (M + mset xs) x \<le> cms_estimate (fst (freq_loop xs s f)) x \<and>
         cms_estimate (fst (freq_loop xs s f)) x \<le> size M + length xs"
  using cms_estimate_ge_count [OF fold_cms_insert_rep [OF assms, of xs], of x]
    cms_estimate_le_size [OF fold_cms_insert_rep [OF assms, of xs], of x]
  by (simp add: freq_loop_fst)

theorem cms_estimate_bounds_witness:
  "count ({#} + mset [0x1000, 0x1001, 0x1000 :: u64]) 0x1000
     \<le> cms_estimate (fst (freq_loop [0x1000, 0x1001, 0x1000] example_sketch (Fin 0))) 0x1000 \<and>
   cms_estimate (fst (freq_loop [0x1000, 0x1001, 0x1000] example_sketch (Fin 0))) 0x1000
     \<le> size ({#} :: u64 multiset) + length [0x1000, 0x1001, 0x1000 :: u64]"
  unfolding example_sketch_def by (rule cms_estimate_bounds) (simp add: cms_new_rep)

lemma cms_insert_estimate:
  assumes "cms_rep s M"
  shows "cms_estimate (cms_insert x s) x = Suc (cms_estimate s x)"
    and "cms_estimate s y \<le> cms_estimate (cms_insert x s) y"
    and "cms_estimate (cms_insert x s) y \<le> Suc (cms_estimate s y)"
proof -
  from assms have ne: "cms_table s \<noteq> []" by (simp add: cms_rep_def)
  let ?A = "{0..<length (cms_table s)}"
  let ?f = "\<lambda>z i. size (filter_mset (\<lambda>u. cms_slot s i u = cms_slot s i z) M)"
  let ?g = "\<lambda>z i. size (filter_mset (\<lambda>u. cms_slot s i u = cms_slot s i z) (add_mset x M))"
  have est: "cms_estimate s z = Min (?f z ` ?A)" "cms_estimate (cms_insert x s) z = Min (?g z ` ?A)"
    for z
    by (simp_all add: cms_estimate_rep [OF assms] cms_estimate_rep [OF cms_insert_rep [OF assms]])
  have "Min (?g x ` ?A) = Suc (Min (?f x ` ?A))"
    using ne Min_image_Suc [of ?A "?f x"] by simp
  then show "cms_estimate (cms_insert x s) x = Suc (cms_estimate s x)" by (simp only: est)
  have "Min (?f y ` ?A) \<le> Min (?g y ` ?A)"
    using ne by (intro Min_image_mono) simp_all
  then show "cms_estimate s y \<le> cms_estimate (cms_insert x s) y" by (simp only: est)
  have "Min (?g y ` ?A) \<le> Min ((\<lambda>i. Suc (?f y i)) ` ?A)"
    using ne by (intro Min_image_mono) simp_all
  then have "Min (?g y ` ?A) \<le> Suc (Min (?f y ` ?A))"
    using ne Min_image_Suc [of ?A "?f y"] by simp
  then show "cms_estimate (cms_insert x s) y \<le> Suc (cms_estimate s y)" by (simp only: est)
qed

text \<open>
  Claim C19. Insert and query: a step of the frequency loop inserts an address
  and reads back exactly one more than the estimate the address had before; the
  insertion raises the estimate of any other address by one at most and lowers
  none.
\<close>

theorem cms_insert_query:
  assumes "cms_rep s M"
  shows "freq_loop [x] s (Fin 0) = (cms_insert x s, fp_of_nat (Suc (cms_estimate s x))) \<and>
         cms_estimate s y \<le> cms_estimate (cms_insert x s) y \<and>
         cms_estimate (cms_insert x s) y \<le> Suc (cms_estimate s y)"
  using cms_insert_estimate [OF assms]
  by (simp add: Let_def cms_query_def fp_of_nat_def)

theorem cms_insert_query_witness:
  "freq_loop [0x1000] example_sketch (Fin 0) =
     (cms_insert 0x1000 example_sketch, fp_of_nat (Suc (cms_estimate example_sketch 0x1000))) \<and>
   cms_estimate example_sketch 0x1001 \<le> cms_estimate (cms_insert 0x1000 example_sketch) 0x1001 \<and>
   cms_estimate (cms_insert 0x1000 example_sketch) 0x1001 \<le> Suc (cms_estimate example_sketch 0x1001)"
  unfolding example_sketch_def by (rule cms_insert_query [OF cms_new_rep]) simp_all

text \<open>Insertions commute, so the sketch depends on the multiset inserted only.\<close>

lemma cms_insert_commute: "cms_insert x (cms_insert y s) = cms_insert y (cms_insert x s)"
  by (simp add: cms_insert_def cms_slot_def map_enumerate_twice
      list_update_Suc_commute [of _ "cms_hash s _ x mod cms_width s"])

lemma fold_cms_insert_mset:
  assumes "mset xs = mset ys"
  shows "fold cms_insert xs s = fold cms_insert ys s"
proof -
  from assms have "fold cms_insert xs = fold cms_insert ys"
    by (intro fold_multiset_equiv) (simp_all add: fun_eq_iff cms_insert_commute)
  then show ?thesis by simp
qed

lemma fold_cms_insert_commute:
  "cms_insert x (fold cms_insert ys s) = fold cms_insert ys (cms_insert x s)"
  using fold_cms_insert_mset [of "ys @ [x]" "x # ys" s] by simp

lemma cms_estimate_fold_ge:
  assumes "cms_rep s M"
  shows "cms_estimate s x + count (mset ys) x \<le> cms_estimate (fold cms_insert ys s) x"
  using assms
proof (induction ys arbitrary: s M)
  case Nil
  then show ?case by simp
next
  case (Cons y ys)
  note rep = cms_insert_rep [OF Cons.prems, of y]
  have "cms_estimate s x + (if y = x then 1 else 0) \<le> cms_estimate (cms_insert y s) x"
    by (simp add: cms_insert_estimate(1,2) [OF Cons.prems])
  with Cons.IH [OF rep] show ?case by (cases "y = x") auto
qed

subsection \<open>Code coverage\<close>

lemma finite_visited [simp]: "finite (visited p)"
  by (simp add: visited_def)

lemma visit_path_eq:
  "visit_path oc path v =
     (if oc \<and> \<not> list_all block_fits path then Inl ArithmeticOverflow
      else Inr (v \<union> (\<Union>b \<in> set path. block_addresses b)))"
proof (induction path arbitrary: v)
  case Nil
  then show ?case by simp
next
  case (Cons b path)
  show ?case
  proof (cases "oc \<and> \<not> block_fits b")
    case True
    then show ?thesis by (simp add: add_oc_def block_fits_def not_less)
  next
    case False
    then have "add_oc oc (entry b) (block_size b) = Inr (entry b + block_size b)"
      by (auto simp: add_oc_def block_fits_def)
    with False Cons.IH show ?thesis
      by (auto simp: fold_insert_set set_range_u64 block_addresses_def)
  qed
qed

lemma visit_paths_eq:
  "visit_paths oc ps v =
     (if oc \<and> \<not> list_all block_fits (concat ps) then Inl ArithmeticOverflow
      else Inr (v \<union> (\<Union>b \<in> set (concat ps). block_addresses b)))"
proof (induction ps arbitrary: v)
  case Nil
  then show ?case by simp
next
  case (Cons p ps)
  then show ?case by (auto simp: visit_path_eq)
qed

lemma freq_loop_eq:
  "freq_loop xs s (fp_of_nat n) = (fold cms_insert xs s, fp_of_nat (n + freq_sum xs s))"
  by (induction xs arbitrary: s n) (simp_all add: Let_def cms_query_def add.assoc)

lemma freq_loop_0:
  "freq_loop xs s (Fin 0) = (fold cms_insert xs s, fp_of_nat (freq_sum xs s))"
  using freq_loop_eq [of xs s 0] by (simp add: fp_of_nat_def)

lemma freq_sum_ge_length:
  "cms_rep s M \<Longrightarrow> length xs \<le> freq_sum xs s"
proof (induction xs arbitrary: s M)
  case Nil
  then show ?case by simp
next
  case (Cons x xs)
  from cms_insert_rep [OF Cons.prems, of x] have rep: "cms_rep (cms_insert x s) (add_mset x M)" .
  from cms_estimate_ge_count [OF rep, of x] have "1 \<le> cms_estimate (cms_insert x s) x" by simp
  with Cons.IH [OF rep] show ?case by simp
qed

lemma freq_sum_le:
  "cms_rep s M \<Longrightarrow> freq_sum xs s \<le> length xs * (size M + length xs)"
proof (induction xs arbitrary: s M)
  case Nil
  then show ?case by simp
next
  case (Cons x xs)
  from cms_insert_rep [OF Cons.prems, of x] have rep: "cms_rep (cms_insert x s) (add_mset x M)" .
  from cms_estimate_le_size [OF rep, of x] have "cms_estimate (cms_insert x s) x \<le> size M + 1"
    by simp
  moreover from Cons.IH [OF rep]
  have "freq_sum xs (cms_insert x s) \<le> length xs * (size M + 1 + length xs)" by simp
  ultimately show ?case by (simp add: algebra_simps)
qed

text \<open>
  The fitness function in closed form: the loops over blocks, addresses and write
  logs become the sets \<open>visited\<close> and \<open>written\<close>.
\<close>

lemma code_coverage_ff_eq:
  "code_coverage_ff env creature sketch config =
     (case creature_profile creature of
        None \<Rightarrow> Inr (creature, sketch)
      | Some p \<Rightarrow>
          if checks env \<and> \<not> profile_fits p then Inl ArithmeticOverflow
          else Inr (set_fitness creature
                      \<lparr>weights = fitness_weights config, scores = coverage_scores env sketch p\<rparr>,
                    fold cms_insert (set_order env (visited p)) sketch))"
  by (auto simp: code_coverage_ff_def visit_paths_eq basic_block_path_iterator_def
      mem_write_ratio_eq profile_fits_def freq_loop_0 visited_def written_def Let_def
      coverage_scores_def weighted_insert_def weighted_new_def
      split: option.split)

lemma code_coverage_ff_Inr:
  assumes "creature_profile creature = Some p"
    and "code_coverage_ff env creature sketch config = Inr (creature', sketch')"
  shows "creature' = set_fitness creature
           \<lparr>weights = fitness_weights config, scores = coverage_scores env sketch p\<rparr>"
    and "sketch' = fold cms_insert (set_order env (visited p)) sketch"
  using assms by (auto simp: code_coverage_ff_eq split: if_splits)

lemma order_ok_length: "order_ok env S \<Longrightarrow> length (set_order env S) = card S"
  by (metis order_ok_def size_mset size_mset_set)

lemma order_ok_sorted [simp]:
  "finite S \<Longrightarrow> set_order env = sorted_list_of_set \<Longrightarrow> order_ok env S"
  by (simp add: order_ok_def)

text \<open>
  Claim C3. \<open>code_coverage_ff\<close> feeds every visited address into the sketch
  exactly once: if the sketch represented the multiset \<open>M\<close> before, it represents
  \<open>M\<close> plus the set of visited addresses afterwards, and it is the sketch that
  inserting the addresses in ascending order gives, whatever the order in which
  the hash set yields them.
\<close>

theorem code_coverage_ff_sketch:
  assumes "creature_profile creature = Some p"
    and "code_coverage_ff env creature sketch config = Inr (creature', sketch')"
    and "cms_rep sketch M"
    and "order_ok env (visited p)"
  shows "cms_rep sketch' (M + mset_set (visited p)) \<and>
         sketch' = fold cms_insert (sorted_list_of_set (visited p)) sketch"
proof -
  note s = code_coverage_ff_Inr(2) [OF assms(1,2)]
  from fold_cms_insert_rep [OF assms(3), of "set_order env (visited p)"] assms(4)
  have "cms_rep sketch' (M + mset_set (visited p))" by (simp add: s order_ok_def)
  moreover from assms(4) have "sketch' = fold cms_insert (sorted_list_of_set (visited p)) sketch"
    unfolding s by (intro fold_cms_insert_mset) (simp add: order_ok_def)
  ultimately show ?thesis ..
qed

text \<open>
  Claim C23. \<open>code_coverage_ff\<close> panics only in a build with overflow checks, when
  the end of an executed block or of a logged write passes \<open>2 ^ 64\<close>; the panic
  is an arithmetic overflow. A creature without a profile is returned as it is.
\<close>

theorem code_coverage_ff_panics:
  "code_coverage_ff env creature sketch config = Inl e \<longleftrightarrow>
     e = ArithmeticOverflow \<and>
     (\<exists>p. creature_profile creature = Some p \<and> checks env \<and> \<not> profile_fits p)"
  by (auto simp: code_coverage_ff_eq split: option.split)

lemma coverage_in_unit:
  assumes "0 < unat (size_of_executable_memory (memory env))"
    and "card (visited p) \<le> unat (size_of_executable_memory (memory env))"
  shows "\<exists>r. coverage_scores env sketch p ''code_coverage'' = Some r \<and> fp_in_unit r"
  using assms by (simp add: coverage_scores_def fp_in_unit_complement fp_div_of_nat_in_unit)

lemma frequency_bounds:
  assumes "cms_rep sketch M" and "order_ok env (visited p)"
  shows "\<exists>q. coverage_scores env sketch p ''code_frequency'' = Some (Fin q) \<and>
             1 \<le> q \<and> q \<le> max 1 (real (size M + card (visited p)))"
proof (cases "visited p = {}")
  case True
  then show ?thesis by (simp add: coverage_scores_def)
next
  case False
  let ?xs = "set_order env (visited p)"
  let ?n = "card (visited p)"
  from False have n: "0 < ?n" by (simp add: card_gt_0_iff)
  have len: "length ?xs = ?n" by (rule order_ok_length [OF assms(2)])
  from freq_sum_ge_length [OF assms(1), of ?xs] len have lo: "?n \<le> freq_sum ?xs sketch" by simp
  from freq_sum_le [OF assms(1), of ?xs] len
  have hi: "freq_sum ?xs sketch \<le> ?n * (size M + ?n)" by simp
  from n lo have "1 \<le> real (freq_sum ?xs sketch) / real ?n" by simp
  moreover from hi have "real (freq_sum ?xs sketch) \<le> real (?n * (size M + ?n))"
    by (rule of_nat_mono)
  with n have "real (freq_sum ?xs sketch) / real ?n \<le> real (size M + ?n)"
    by (simp add: field_simps)
  ultimately show ?thesis
    using False n by (simp add: coverage_scores_def fp_div_of_nat max_def)
qed

text \<open>
  Claim C22. The scores of \<open>code_coverage_ff\<close> are bounded: when the executable
  memory is not empty and holds the visited addresses, \<open>code_coverage\<close> lies in
  \<open>[0, 1]\<close>; when the sketch represents \<open>M\<close>, \<open>code_frequency\<close> is at least 1
  and at most the number of insertions made so far.
\<close>

theorem code_coverage_bounds:
  assumes "creature_profile creature = Some p"
    and "code_coverage_ff env creature sketch config = Inr (creature', sketch')"
    and "0 < unat (size_of_executable_memory (memory env))"
    and "card (visited p) \<le> unat (size_of_executable_memory (memory env))"
    and "cms_rep sketch M" and "order_ok env (visited p)"
  shows "\<exists>f r q. creature_fitness creature' = Some f \<and>
           scores f ''code_coverage'' = Some r \<and> fp_in_unit r \<and>
           scores f ''code_frequency'' = Some (Fin q) \<and>
           1 \<le> q \<and> q \<le> max 1 (real (size M + card (visited p)))"
  using coverage_in_unit [OF assms(3,4), of sketch] frequency_bounds [OF assms(5,6)]
  by (auto simp: code_coverage_ff_Inr(1) [OF assms(1,2)] set_fitness_def)

text \<open>
  With no executable memory the coverage score is not a number when nothing was
  visited, and minus infinity otherwise: nothing guards the division.
\<close>

lemma coverage_no_code:
  "size_of_executable_memory (memory env) = 0 \<Longrightarrow>
   coverage_scores env sketch p ''code_coverage'' = Some (if visited p = {} then NaN else NegInf)"
  by (simp add: coverage_scores_def fp_div_of_nat card_gt_0_iff fp_sub_def)

text \<open>
  The score \<open>gadgets_executed\<close> is the length of the vector of gadget sets: the
  number of runs of the profile, not a number of gadgets.
\<close>

lemma gadgets_score_runs:
  "aligned p \<Longrightarrow> coverage_scores env sketch p ''gadgets_executed'' = Some (fp_of_nat (runs p))"
  by (simp add: coverage_scores_def aligned_def)

text \<open>
  How the order of the insertions and earlier insertions move the sum of the
  estimates that the frequency loop reads.
\<close>

lemma freq_sum_fold_ge:
  assumes "cms_rep s M"
  shows "freq_sum xs s + (\<Sum>x\<leftarrow>xs. count (mset ys) x) \<le> freq_sum xs (fold cms_insert ys s)"
  using assms
proof (induction xs arbitrary: s M)
  case Nil
  then show ?case by simp
next
  case (Cons x xs)
  note rep = cms_insert_rep [OF Cons.prems, of x]
  from cms_estimate_fold_ge [OF rep, of x ys]
  have "cms_estimate (cms_insert x s) x + count (mset ys) x
      \<le> cms_estimate (fold cms_insert ys (cms_insert x s)) x" .
  with Cons.IH [OF rep] show ?case
    by (simp add: fold_cms_insert_commute)
qed

lemma freq_sum_lower:
  assumes "cms_rep s M"
  shows "(\<Sum>x\<leftarrow>xs. Suc (cms_estimate s x)) \<le> freq_sum xs s"
  using assms
proof (induction xs arbitrary: s M)
  case Nil
  then show ?case by simp
next
  case (Cons x xs)
  note rep = cms_insert_rep [OF Cons.prems, of x]
  have "(\<Sum>y\<leftarrow>xs. Suc (cms_estimate s y)) \<le> (\<Sum>y\<leftarrow>xs. Suc (cms_estimate (cms_insert x s) y))"
    by (intro sum_list_mono) (simp add: cms_insert_estimate(2) [OF Cons.prems])
  with Cons.IH [OF rep] show ?case by (simp add: cms_insert_estimate(1) [OF Cons.prems])
qed

lemma freq_sum_upper:
  assumes "cms_rep s M"
  shows "freq_sum xs s \<le> (\<Sum>x\<leftarrow>xs. cms_estimate (fold cms_insert xs s) x)"
  using assms
proof (induction xs arbitrary: s M)
  case Nil
  then show ?case by simp
next
  case (Cons x xs)
  note rep = cms_insert_rep [OF Cons.prems, of x]
  from cms_estimate_fold_ge [OF rep, of x xs]
  have "cms_estimate (cms_insert x s) x \<le> cms_estimate (fold cms_insert xs (cms_insert x s)) x"
    by simp
  with Cons.IH [OF rep] show ?case by simp
qed

lemma sum_list_order:
  fixes f :: "u64 \<Rightarrow> nat"
  assumes "order_ok env S"
  shows "(\<Sum>x\<leftarrow>set_order env S. f x) = sum f S"
proof -
  have "(\<Sum>x\<leftarrow>set_order env S. f x) = sum_mset (image_mset f (mset (set_order env S)))"
    by (simp add: sum_mset_sum_list [symmetric])
  also have "\<dots> = sum f S"
    using assms by (simp add: order_ok_def sum_unfold_sum_mset)
  finally show ?thesis .
qed

lemma sum_count_order:
  assumes "order_ok env A" and "finite A" and "finite B"
  shows "(\<Sum>x\<in>B. count (mset (set_order env A)) x) = card (A \<inter> B)"
proof -
  from assms have "(\<Sum>x\<in>B. count (mset (set_order env A)) x) = (\<Sum>x\<in>B. if x \<in> A then 1 else 0)"
    by (intro sum.cong) (simp_all add: order_ok_def)
  also have "\<dots> = card (A \<inter> B)"
    using assms(3) by (simp add: sum.If_cases Int_commute)
  finally show ?thesis .
qed


lemma code_frequency_score:
  "visited p \<noteq> {} \<Longrightarrow>
   coverage_scores env sketch p ''code_frequency'' =
     Some (Fin (real (freq_sum (set_order env (visited p)) sketch) / real (card (visited p))))"
  by (simp add: coverage_scores_def fp_div_of_nat card_gt_0_iff)

lemma code_coverage_ff_fits:
  assumes "creature_profile c = Some p" and "checks env \<longrightarrow> profile_fits p"
  shows "code_coverage_ff env c sketch config =
     Inr (set_fitness c \<lparr>weights = fitness_weights config, scores = coverage_scores env sketch p\<rparr>,
          fold cms_insert (set_order env (visited p)) sketch)"
  using assms by (auto simp: code_coverage_ff_eq)

lemma freq_sum_after:
  assumes "cms_rep sketch M" and "order_ok env A" and "order_ok env B"
    and "finite A" and "finite B"
  shows "freq_sum (set_order env B) sketch + card (A \<inter> B)
     \<le> freq_sum (set_order env B) (fold cms_insert (set_order env A) sketch)"
  using freq_sum_fold_ge [OF assms(1), of "set_order env B" "set_order env A"]
  by (simp add: sum_list_order [OF assms(3)] sum_count_order [OF assms(2,4,5)])

lemma sum_real_order:
  fixes f :: "u64 \<Rightarrow> nat"
  assumes "order_ok env S"
  shows "real (\<Sum>x\<leftarrow>set_order env S. f x) = (\<Sum>x\<in>S. real (f x))"
  by (simp add: sum_list_order [OF assms])

text \<open>
  Claim C28. The score \<open>code_frequency\<close> depends on the order in which the hash set
  yields the visited addresses, because each estimate is read right after its
  own insertion. Whatever the order, the score lies between two values that do
  not depend on it: the mean over the visited addresses of one more than the
  estimate in the sketch before the call, and the mean of the estimates in the
  sketch that is returned.
\<close>

theorem code_frequency_order:
  assumes "creature_profile c = Some p"
    and "code_coverage_ff env c sketch config = Inr (a, s)"
    and "visited p \<noteq> {}"
    and "cms_rep sketch M"
    and "order_ok env (visited p)"
  shows "\<exists>q. map_option (\<lambda>f. scores f ''code_frequency'') (creature_fitness a) = Some (Some (Fin q)) \<and>
     (\<Sum>x\<in>visited p. real (Suc (cms_estimate sketch x))) / real (card (visited p)) \<le> q \<and>
     q \<le> (\<Sum>x\<in>visited p. real (cms_estimate s x)) / real (card (visited p))"
proof -
  let ?xs = "set_order env (visited p)"
  let ?n = "card (visited p)"
  note r = code_coverage_ff_Inr [OF assms(1,2)]
  from assms(3) have n: "0 < ?n" by (simp add: card_gt_0_iff)
  from freq_sum_lower [OF assms(4), of ?xs]
  have "(\<Sum>x\<in>visited p. real (Suc (cms_estimate sketch x))) \<le> real (freq_sum ?xs sketch)"
    unfolding sum_real_order [OF assms(5), symmetric] by (rule of_nat_mono)
  moreover from freq_sum_upper [OF assms(4), of ?xs]
  have "real (freq_sum ?xs sketch) \<le> (\<Sum>x\<in>visited p. real (cms_estimate s x))"
    unfolding sum_real_order [OF assms(5), symmetric] r(2) by (rule of_nat_mono)
  ultimately show ?thesis
    using n assms(3)
    by (simp add: r(1) code_frequency_score set_fitness_def divide_right_mono)
qed

text \<open>
  Claim C16. Scoring a batch with \<open>code_coverage_ff\<close> is not two-phase: the
  fitness function updates the sketch while the batch is being scored, so a
  creature is scored against the insertions of the creatures before it. When
  \<open>d\<close> is scored after \<open>c\<close> in one batch, its \<open>code_frequency\<close> exceeds the
  score that the sketch before the batch gives it by at least the share of its
  visited addresses that \<open>c\<close> visited as well.
\<close>

theorem score_all_coverage_biased:
  assumes "creature_profile c = Some p" and "creature_profile d = Some r"
    and "visited r \<noteq> {}"
    and "cms_rep sketch M"
    and "order_ok env (visited p)" and "order_ok env (visited r)"
    and "checks env \<longrightarrow> profile_fits p \<and> profile_fits r"
  shows "\<exists>a b b0 s s0 q q0.
     score_all (code_coverage_ff env) config [c, d] sketch = Inr ([a, b], s) \<and>
     code_coverage_ff env d sketch config = Inr (b0, s0) \<and>
     map_option (\<lambda>f. scores f ''code_frequency'') (creature_fitness b) = Some (Some (Fin q)) \<and>
     map_option (\<lambda>f. scores f ''code_frequency'') (creature_fitness b0) = Some (Some (Fin q0)) \<and>
     q0 + real (card (visited p \<inter> visited r)) / real (card (visited r)) \<le> q"
proof -
  let ?ys = "set_order env (visited r)"
  let ?s1 = "fold cms_insert (set_order env (visited p)) sketch"
  let ?n = "card (visited r)"
  from assms(3) have n: "0 < ?n" by (simp add: card_gt_0_iff)
  from freq_sum_after [OF assms(4-6)]
  have "real (freq_sum ?ys sketch + card (visited p \<inter> visited r)) \<le> real (freq_sum ?ys ?s1)"
    by (intro of_nat_mono) simp
  with n have "real (freq_sum ?ys sketch) / real ?n + real (card (visited p \<inter> visited r)) / real ?n
      \<le> real (freq_sum ?ys ?s1) / real ?n"
    by (simp add: field_simps)
  then show ?thesis
    using assms(1-3,7)
    by (simp add: code_coverage_ff_fits code_frequency_score set_fitness_def)
qed

subsection \<open>The example evaluated\<close>

lemma visited_example: "visited example_profile = {0x1000..<0x1003}"
  by (simp add: visited_def example_profile_def collate_eq block_addresses_def)

lemma example_fits: "profile_fits example_profile"
  by (simp add: profile_fits_def example_profile_def collate_eq block_fits_def profiler_default_def)

lemma order_example: "set_order example_ff_env {0x1000..<0x1003} = [0x1000, 0x1001, 0x1002]"
  by (simp add: example_ff_env_def sorted_list_of_set_range_u64 range_u64_rec)

lemma order_example': "set_order example_ff_env' {0x1000..<0x1003} = [0x1002, 0x1001, 0x1000]"
  by (simp add: example_ff_env'_def example_ff_env_def sorted_list_of_set_range_u64 range_u64_rec)

lemma order_ok_example: "order_ok example_ff_env (visited example_profile)"
  by (simp add: example_ff_env_def)

lemmas cms_eval = example_sketch_def cms_new_def cms_insert_def cms_estimate_def cms_slot_def
  example_hash_def enumerate_eq_zip numeral_2_eq_2

lemma freq_example_asc: "freq_sum [0x1000, 0x1001, 0x1002] example_sketch = 3"
  by (simp add: cms_eval)

lemma freq_example_desc: "freq_sum [0x1002, 0x1001, 0x1000] example_sketch = 4"
  by (simp add: cms_eval)

lemma freq_example_second:
  "freq_sum [0x1000, 0x1001, 0x1002]
     (cms_insert 0x1002 (cms_insert 0x1001 (cms_insert 0x1000 example_sketch))) = 7"
  by (simp add: cms_eval)

lemma example_returns:
  "\<exists>c s. code_coverage_ff example_ff_env example_creature example_sketch example_config = Inr (c, s)"
  by (simp add: code_coverage_ff_eq example_creature_def example_fits)

lemmas coverage_example = code_coverage_ff_eq example_creature_def example_fits
  coverage_scores_def visited_example card_range_u64 fp_div_of_nat set_fitness_def

theorem code_coverage_ff_sketch_witness:
  "\<exists>c s. code_coverage_ff example_ff_env example_creature example_sketch example_config
            = Inr (c, s) \<and>
     cms_rep s (mset_set (visited example_profile)) \<and>
     s = fold cms_insert (sorted_list_of_set (visited example_profile)) example_sketch"
proof -
  from example_returns obtain c s where
    r: "code_coverage_ff example_ff_env example_creature example_sketch example_config = Inr (c, s)"
    by blast
  have p: "creature_profile example_creature = Some example_profile"
    by (simp add: example_creature_def)
  have rep: "cms_rep example_sketch {#}"
    by (simp add: example_sketch_def cms_new_rep)
  from code_coverage_ff_sketch [OF p r rep order_ok_example] r show ?thesis by auto
qed

theorem code_coverage_bounds_witness:
  "\<exists>c s f r q. code_coverage_ff example_ff_env example_creature example_sketch example_config
            = Inr (c, s) \<and>
     creature_fitness c = Some f \<and> scores f ''code_coverage'' = Some r \<and> fp_in_unit r \<and>
     scores f ''code_frequency'' = Some (Fin q) \<and> 1 \<le> q \<and> q \<le> 3"
proof -
  from example_returns obtain c s where
    r: "code_coverage_ff example_ff_env example_creature example_sketch example_config = Inr (c, s)"
    by blast
  have "creature_profile example_creature = Some example_profile"
    by (simp add: example_creature_def)
  moreover have "cms_rep example_sketch {#}"
    by (simp add: example_sketch_def cms_new_rep)
  moreover have "0 < unat (size_of_executable_memory (memory example_ff_env))"
    and "card (visited example_profile) \<le> unat (size_of_executable_memory (memory example_ff_env))"
    by (simp_all add: example_ff_env_def visited_example card_range_u64)
  ultimately show ?thesis
    using code_coverage_bounds [OF _ r _ _ _ order_ok_example, of "{#}"] r
    by (simp add: visited_example card_range_u64)
qed

lemma example_addresses: "{0x1000..<0x1003 :: u64} = {0x1000, 0x1001, 0x1002}"
proof -
  have "{0x1000..<0x1003 :: u64} = set (range_u64 0x1000 0x1003)"
    by (simp add: set_range_u64)
  then show ?thesis by (simp add: range_u64_rec)
qed

lemma example_estimates:
  "cms_estimate example_sketch x = 0"
  "cms_estimate (cms_insert 0x1002 (cms_insert 0x1001 (cms_insert 0x1000 example_sketch))) 0x1000 = 2"
  "cms_estimate (cms_insert 0x1002 (cms_insert 0x1001 (cms_insert 0x1000 example_sketch))) 0x1001 = 1"
  "cms_estimate (cms_insert 0x1002 (cms_insert 0x1001 (cms_insert 0x1000 example_sketch))) 0x1002 = 1"
  by (simp_all add: cms_eval)

theorem code_frequency_order_witness:
  "\<exists>a s q. code_coverage_ff example_ff_env example_creature example_sketch example_config
       = Inr (a, s) \<and>
     map_option (\<lambda>f. scores f ''code_frequency'') (creature_fitness a) = Some (Some (Fin q)) \<and>
     1 \<le> q \<and> q \<le> 4 / 3"
proof -
  from example_returns obtain a s where
    r: "code_coverage_ff example_ff_env example_creature example_sketch example_config = Inr (a, s)"
    by blast
  have p: "creature_profile example_creature = Some example_profile"
    by (simp add: example_creature_def)
  have rep: "cms_rep example_sketch {#}"
    by (simp add: example_sketch_def cms_new_rep)
  have ne: "visited example_profile \<noteq> {}"
    by (simp add: visited_example)
  have s: "s = cms_insert 0x1002 (cms_insert 0x1001 (cms_insert 0x1000 example_sketch))"
    using code_coverage_ff_Inr(2) [OF p r] by (simp add: visited_example order_example)
  from code_frequency_order [OF p r ne rep order_ok_example] r show ?thesis
    by (simp add: visited_example card_range_u64 example_addresses example_estimates s)
qed

text \<open>
  Both bounds are attained: the example creature scores 1 when the addresses
  come in ascending order and 4/3 when they come in descending order; the
  sketch returned is the same.
\<close>

lemma code_frequency_order_example:
  "\<exists>a b s. code_coverage_ff example_ff_env example_creature example_sketch example_config
            = Inr (a, s) \<and>
     code_coverage_ff example_ff_env' example_creature example_sketch example_config
            = Inr (b, s) \<and>
     map_option (\<lambda>f. scores f ''code_frequency'') (creature_fitness a) = Some (Some (Fin 1)) \<and>
     map_option (\<lambda>f. scores f ''code_frequency'') (creature_fitness b) = Some (Some (Fin (4 / 3)))"
proof -
  have "fold cms_insert [0x1000, 0x1001, 0x1002] example_sketch =
        fold cms_insert [0x1002, 0x1001, 0x1000] example_sketch"
    by (rule fold_cms_insert_mset) simp
  then show ?thesis
    by (simp add: coverage_example order_example order_example' freq_example_asc freq_example_desc
        del: freq_sum.simps fold_simps)
qed

theorem score_all_coverage_biased_witness:
  "\<exists>a b b0 s s0 q q0.
     score_all (code_coverage_ff example_ff_env) example_config
       [example_creature, example_creature] example_sketch = Inr ([a, b], s) \<and>
     code_coverage_ff example_ff_env example_creature example_sketch example_config = Inr (b0, s0) \<and>
     map_option (\<lambda>f. scores f ''code_frequency'') (creature_fitness b) = Some (Some (Fin q)) \<and>
     map_option (\<lambda>f. scores f ''code_frequency'') (creature_fitness b0) = Some (Some (Fin q0)) \<and>
     q0 + 1 \<le> q"
proof -
  have "creature_profile example_creature = Some example_profile"
    by (simp add: example_creature_def)
  moreover have "cms_rep example_sketch {#}"
    by (simp add: example_sketch_def cms_new_rep)
  moreover have "visited example_profile \<noteq> {}"
    by (simp add: visited_example)
  ultimately show ?thesis
    using score_all_coverage_biased [of example_creature example_profile example_creature
        example_profile example_sketch "{#}" example_ff_env example_config]
      order_ok_example example_fits
    by (simp add: visited_example card_range_u64)
qed

text \<open>Two copies of the example creature in one batch score 1 and 7/3.\<close>

lemma score_all_example:
  "\<exists>a b s. score_all (code_coverage_ff example_ff_env) example_config
              [example_creature, example_creature] example_sketch = Inr ([a, b], s) \<and>
     map_option (\<lambda>f. scores f ''code_frequency'') (creature_fitness a) = Some (Some (Fin 1)) \<and>
     map_option (\<lambda>f. scores f ''code_frequency'') (creature_fitness b) = Some (Some (Fin (7 / 3)))"
  by (simp add: coverage_example order_example freq_example_asc freq_example_second
      del: freq_sum.simps fold_simps)

subsection \<open>Register conjunction and register pattern\<close>

lemma conjunction_eq:
  "conjunction bs a =
     (if [] \<in> set bs then Inl IndexOutOfBounds else Inr (fold (\<lambda>b a. a AND hd b) bs a))"
  by (induction bs arbitrary: a) (auto simp: vec_get_def hd_conv_nth)

lemma bit_fold_and:
  "bit (fold (\<lambda>b a. a AND hd b) bs (a :: u64)) i \<longleftrightarrow> bit a i \<and> (\<forall>b \<in> set bs. bit (hd b) i)"
  by (induction bs arbitrary: a) (auto simp: bit_and_iff)

lemma set_map_filter_keys:
  "set ks = dom words \<Longrightarrow> set (List.map_filter words ks) = ran words"
  by (force simp: map_filter_def ran_def dom_def)

lemma ran_first_words: "ran (first_words words) = hd ` ran words"
  by (force simp: first_words_def ran_def)

text \<open>
  The number of zero bits of the conjunction is the number of bit positions at
  which the first word of some register holds a zero; it does not depend on the
  order of the keys.
\<close>

lemma count_zeros_conjunction:
  assumes "set ks = dom words"
  shows "count_zeros (fold (\<lambda>b a. a AND hd b) (List.map_filter words ks) 0xffffffffffffffff) =
     card (zero_bits (first_words words))"
proof -
  have "(0xffffffffffffffff :: u64) = - 1" by simp
  then have "bit (fold (\<lambda>b a. a AND hd b) (List.map_filter words ks) 0xffffffffffffffff) i \<longleftrightarrow>
      i < 64 \<and> (\<forall>b \<in> ran words. bit (hd b) i)" for i
    unfolding bit_fold_and set_map_filter_keys [OF assms]
    by (simp only: bit_minus_1_iff) (simp add: bit_simps)
  then have "{i. i < 64 \<and>
        \<not> bit (fold (\<lambda>b a. a AND hd b) (List.map_filter words ks) 0xffffffffffffffff) i} =
      zero_bits (first_words words)"
    by (auto simp: zero_bits_def ran_first_words)
  then show ?thesis by (simp add: count_zeros_card)
qed

lemma card_zero_bits_le: "card (zero_bits regs) \<le> 64"
proof -
  have "card (zero_bits regs) \<le> card {..<64 :: nat}"
    by (rule card_mono) (auto simp: zero_bits_def)
  then show ?thesis by simp
qed

lemma keys_ok_sorted [simp]:
  "finite (dom words) \<Longrightarrow> keys_order env = (\<lambda>m. sorted_list_of_set (dom m)) \<Longrightarrow>
   keys_ok env words"
  by (simp add: keys_ok_def)

lemma register_conjunction_ff_eq:
  assumes "creature_profile creature = Some p"
    and "profile.registers p \<noteq> []"
    and "keys_ok env (register_words env (last (profile.registers p)))"
  shows "register_conjunction_ff env creature sketch config =
     (if [] \<in> ran (register_words env (last (profile.registers p))) then Inl IndexOutOfBounds
      else if checks env \<and> \<not> list_all entry_fits (concat (write_logs p))
      then Inl ArithmeticOverflow
      else Inr (set_fitness creature
                  \<lparr>weights = fitness_weights config, scores = conjunction_scores env p\<rparr>,
                sketch))"
  using assms
  by (simp add: register_conjunction_ff_def mem_write_ratio_eq Let_def keys_ok_def
      conjunction_eq set_map_filter_keys count_zeros_conjunction conjunction_scores_def
      weighted_insert_def weighted_new_def written_def)

text \<open>
  Claim C24. \<open>register_conjunction_ff\<close> scores the last register state of the
  profile: \<open>zeroes\<close> is the number of bit positions, at most 64, at which the
  first word of some register holds a zero, whatever the order in which the
  hash map yields the registers; the ratio of written memory is inserted as it
  is. It panics on a register without a word, and on the overflow of a logged
  write in a build with overflow checks.
\<close>

theorem register_conjunction_zeroes:
  assumes "creature_profile creature = Some p"
    and "profile.registers p \<noteq> []"
    and "keys_ok env (register_words env (last (profile.registers p)))"
  shows "register_conjunction_ff env creature sketch config =
     (if [] \<in> ran (register_words env (last (profile.registers p))) then Inl IndexOutOfBounds
      else if checks env \<and> \<not> list_all entry_fits (concat (write_logs p))
      then Inl ArithmeticOverflow
      else Inr (set_fitness creature
                  \<lparr>weights = fitness_weights config, scores = conjunction_scores env p\<rparr>,
                sketch)) \<and>
     card (zero_bits (first_words (register_words env (last (profile.registers p))))) \<le> 64"
  by (simp only: register_conjunction_ff_eq [OF assms] card_zero_bits_le simp_thms)

lemma example_registers:
  "profile.registers example_profile = [([0 \<mapsto> 0xff00, 1 \<mapsto> 0x0ff0], [])]"
  by (simp add: example_profile_def collate_eq profiler_default_def)

lemma example_words:
  "register_words example_ff_env (last (profile.registers example_profile)) =
     [0 \<mapsto> [0xff00], 1 \<mapsto> [0x0ff0]]"
  by (simp add: example_registers example_ff_env_def fun_eq_iff)

lemma example_keys_ok:
  "keys_ok example_ff_env (register_words example_ff_env (last (profile.registers example_profile)))"
  unfolding example_words by (simp add: example_ff_env_def)

lemma example_conjunction:
  "register_conjunction_ff example_ff_env example_creature example_sketch example_config =
     Inr (set_fitness example_creature
            \<lparr>weights = (), scores = conjunction_scores example_ff_env example_profile\<rparr>,
          example_sketch)"
proof -
  have "creature_profile example_creature = Some example_profile"
    by (simp add: example_creature_def)
  moreover have "profile.registers example_profile \<noteq> []"
    by (simp add: example_registers)
  ultimately show ?thesis
    using example_fits example_keys_ok
    by (simp add: register_conjunction_ff_eq profile_fits_def example_config_def example_words)
qed

theorem register_conjunction_zeroes_witness:
  "register_conjunction_ff example_ff_env example_creature example_sketch example_config =
     Inr (set_fitness example_creature
            \<lparr>weights = (), scores = conjunction_scores example_ff_env example_profile\<rparr>,
          example_sketch) \<and>
   card (zero_bits (first_words
     (register_words example_ff_env (last (profile.registers example_profile))))) \<le> 64"
proof -
  have "creature_profile example_creature = Some example_profile"
    by (simp add: example_creature_def)
  moreover have "profile.registers example_profile \<noteq> []"
    by (simp add: example_registers)
  ultimately show ?thesis
    using register_conjunction_zeroes [of example_creature example_profile example_ff_env
        example_sketch example_config] example_fits example_keys_ok
    by (simp add: profile_fits_def example_config_def example_words)
qed

lemma register_conjunction_ff_unscored:
  "creature_profile creature = None \<or>
   (\<exists>p. creature_profile creature = Some p \<and> profile.registers p = []) \<Longrightarrow>
   register_conjunction_ff env creature sketch config = Inr (creature, sketch)"
  by (auto simp: register_conjunction_ff_def)

text \<open>
  The counts of the table of faults add up to the number of runs that ended in
  a fault, so the sum cannot overflow while the vector has fewer than \<open>2 ^ 64\<close>
  entries.
\<close>

lemma sum_error_table:
  "sum_list (map snd (error_table errors)) = length (filter (\<lambda>e. e \<noteq> None) errors)"
proof -
  let ?fs = "List.map_filter (\<lambda>e. e) errors"
  have "sum_list (map snd (error_table errors)) = (\<Sum>e\<leftarrow>remdups ?fs. count_list ?fs e)"
    by (simp add: error_table_def Let_def comp_def)
  also have "\<dots> = sum (count_list ?fs) (set ?fs)"
    by (simp add: sum_list_distinct_conv_sum_set)
  also have "\<dots> = length ?fs"
    by (rule sum_count_set) simp_all
  finally show ?thesis by (simp add: map_filter_def)
qed

lemma crash_count_table:
  assumes "length errors < 2 ^ 64"
  shows "crash_count oc (error_table errors) = Inr (length (filter (\<lambda>e. e \<noteq> None) errors))"
proof -
  have "length (filter (\<lambda>e. e \<noteq> None) errors) < 2 ^ 64"
    using assms length_filter_le [of "\<lambda>e. e \<noteq> None" errors] by linarith
  then show ?thesis
    by (simp add: crash_count_def sum_usize_def sum_error_table)
qed

lemma register_pattern_ff_unscored:
  "creature_profile creature = None \<Longrightarrow>
   register_pattern_ff env creature sketch config = Inr (creature, sketch, [])"
  "creature_profile creature = Some p \<Longrightarrow> register_pattern config = None \<Longrightarrow>
   register_pattern_ff env creature sketch config = Inr (creature, sketch, [LogNoRegisterPattern])"
  by (simp_all add: register_pattern_ff_def)

lemma register_pattern_ff_eq:
  assumes "creature_profile creature = Some p" and "register_pattern config = Some pat"
    and "length (cpu_errors p) < 2 ^ 64"
  shows "register_pattern_ff env creature sketch config =
     (if profile.registers p = [] then Inl IndexOutOfBounds
      else if checks env \<and> \<not> list_all entry_fits (concat (write_logs p))
      then Inl ArithmeticOverflow
      else Inr (set_fitness creature
                  \<lparr>weights = fitness_weights config, scores = pattern_scores env pat p\<rparr>,
                sketch, []))"
  using assms(1,2)
  by (simp add: register_pattern_ff_def mem_write_ratio_eq Let_def hd_conv_nth vec_get_def
      crash_count_table [OF assms(3)] faulted_def
      pattern_scores_def weighted_insert_def weighted_new_def written_def)

text \<open>
  Claim C33. \<open>register_pattern_ff\<close> on the profile collated from the profilers of
  the runs, with a register pattern and fewer than \<open>2 ^ 64\<close> runs. Without a run
  the index \<open>registers[0]\<close> panics. Otherwise \<open>register_error\<close> is the distance
  of the pattern from the registers of the first run, whatever the later runs
  read; \<open>crash_count\<close>, the sum of the counts of the table of faults, is the
  number of runs that ended in a fault; \<open>gadgets_executed\<close> is the number of
  runs; \<open>mem_ratio_written\<close> is the complement of the share of the writeable
  memory that the write logs of all runs cover. The sketch is not changed.
\<close>

theorem register_pattern_collated:
  assumes "creature_profile creature = Some (collate ps)"
    and "register_pattern config = Some pat"
    and "length ps < 2 ^ 64"
  shows "register_pattern_ff env creature sketch config =
     (if ps = [] then Inl IndexOutOfBounds
      else if checks env \<and> \<not> list_all entry_fits (concat (map write_log ps))
      then Inl ArithmeticOverflow
      else Inr (set_fitness creature
        \<lparr>weights = fitness_weights config,
         scores =
           [''register_error'' \<mapsto>
              distance_from_register_state pat
                (register_state_new (profiler.registers (hd ps)) (written_memory (hd ps))),
            ''mem_ratio_written'' \<mapsto>
              fp_sub (Fin 1)
                (fp_div (fp_of_nat (card (\<Union>p \<in> set ps. \<Union>e \<in> set (write_log p). entry_bytes e)))
                        (fp_of_nat (unat (size_of_writeable_memory (memory env))))),
            ''crash_count'' \<mapsto> fp_of_nat (length (filter (\<lambda>p. cpu_error p \<noteq> None) ps)),
            ''gadgets_executed'' \<mapsto> fp_of_nat (length ps)]\<rparr>,
        sketch, []))"
proof -
  have "length (cpu_errors (collate ps)) < 2 ^ 64"
    using assms(3) by (simp add: collate_eq)
  note eq = register_pattern_ff_eq [OF assms(1,2) this]
  show ?thesis
    unfolding eq
    by (simp add: pattern_scores_def faulted_def written_def collate_eq hd_map
        register_state_new_def filter_map comp_def)
qed

theorem register_pattern_collated_witness:
  "register_pattern_ff example_ff_env example_creature example_sketch example_pattern_config =
     Inr (set_fitness example_creature
        \<lparr>weights = (),
         scores = [''register_error'' \<mapsto> Fin 0, ''mem_ratio_written'' \<mapsto> Fin 1,
                   ''crash_count'' \<mapsto> Fin 0, ''gadgets_executed'' \<mapsto> Fin 1]\<rparr>,
        example_sketch, [])"
  using register_pattern_collated [of example_creature
      "[profiler_default\<lparr>block_log := [\<lparr>entry = 0x1000, block_size = 3\<rparr>],
          profiler.registers := [0 \<mapsto> 0xff00, 1 \<mapsto> 0x0ff0]\<rparr>]"
      example_pattern_config example_pattern example_ff_env example_sketch]
  by (simp add: example_creature_def example_profile_def example_pattern_config_def
      example_pattern_def example_ff_env_def profiler_default_def fp_of_nat_def fp_sub_def)

text \<open>
  The two register fitness functions disagree on the score \<open>mem_ratio_written\<close>:
  one inserts the complement of the ratio, the other the ratio.
\<close>

lemma mem_ratio_written_complement:
  "pattern_scores env pat p ''mem_ratio_written'' =
     map_option (fp_sub (Fin 1)) (conjunction_scores env p ''mem_ratio_written'')"
  by (simp add: pattern_scores_def conjunction_scores_def)

subsection \<open>The evaluator\<close>

lemma roper_evaluate_eq:
  "roper_evaluate self creature g =
     (case execute (ev_hatchery self) creature of
        None \<Rightarrow> Inl ExpectFailed
      | Some (c, p) \<Rightarrow>
          and_then
            (fitness_fn self (c\<lparr>creature_profile := Some p, creature_tag := fst (gen_usize g)\<rparr>)
               (ev_sketch self) (ev_config self))
            (\<lambda>(scored, sketch). Inr (scored, self\<lparr>ev_sketch := sketch\<rparr>, snd (gen_usize g))))"
  by (simp add: roper_evaluate_def gen_u64_def Let_def split_beta split: option.split)

lemma score_all_length:
  "score_all f config cs sketch = Inr (batch, sketch') \<Longrightarrow> length batch = length cs"
  by (induction cs arbitrary: sketch batch)
    (auto simp: and_then_eq_Inr_iff split: prod.splits)

lemma score_all_snapshot:
  assumes "\<And>c. c \<in> set cs \<Longrightarrow> f c sketch config = Inr (g c, sketch)"
  shows "score_all f config cs sketch = Inr (map g cs, sketch)"
  using assms by (induction cs) simp_all

lemma record_frequencies_length:
  "length (fst (record_frequencies rgf cs sketch)) = length cs"
  by (induction cs arbitrary: sketch) (simp_all add: Let_def split_beta)

lemma eval_pipeline_Inl_hatchery:
  "execute_batch (ev_hatchery self) (filter (\<lambda>c. creature_profile c = None) inbound) = None \<Longrightarrow>
   eval_pipeline rgf self inbound = Inl ExpectFailed"
  by (simp add: eval_pipeline_def comp_def)

text \<open>
  Whatever the fitness function, a batch that is scored holds one creature for
  each creature that the hatchery returned and one for each creature that came
  with a profile.
\<close>

lemma eval_pipeline_length:
  assumes "eval_pipeline rgf self inbound = Inr (batch, self')"
  shows "\<exists>executed.
     execute_batch (ev_hatchery self) (filter (\<lambda>c. creature_profile c = None) inbound)
       = Some executed \<and>
     length batch = length executed + length (filter (\<lambda>c. creature_profile c \<noteq> None) inbound)"
proof (cases "execute_batch (ev_hatchery self) (filter (\<lambda>c. creature_profile c = None) inbound)")
  case None
  with assms show ?thesis by (simp add: eval_pipeline_Inl_hatchery)
next
  case (Some executed)
  let ?cs = "map (\<lambda>(c, p). c\<lparr>creature_profile := Some p\<rparr>) executed @
      filter (\<lambda>c. creature_profile c \<noteq> None) inbound"
  from assms Some obtain scored sketch where
    sc: "score_all (fitness_fn self) (ev_config self) ?cs (ev_sketch self) = Inr (scored, sketch)"
    and b: "batch = fst (record_frequencies rgf scored sketch)"
    by (auto simp: eval_pipeline_def comp_def and_then_eq_Inr_iff split_beta)
  from score_all_length [OF sc] b have "length batch = length ?cs"
    by (simp add: record_frequencies_length)
  with Some show ?thesis by simp
qed

text \<open>
  Claim C15. With a fitness function that leaves the sketch as it is, as the two
  register fitness functions do, \<open>eval_pipeline\<close> is two-phase: only the
  creatures without a profile are executed, in one batch; every creature, the
  executed ones first and then those that came with a profile, is scored
  against the sketch as it was before the batch; the sketch is updated
  afterwards, by \<open>record_genetic_frequency\<close>.
\<close>

theorem eval_pipeline_two_phase:
  assumes "execute_batch (ev_hatchery self) (filter (\<lambda>c. creature_profile c = None) inbound)
           = Some executed"
    and "\<forall>c \<in> set (map (\<lambda>(c, p). c\<lparr>creature_profile := Some p\<rparr>) executed @
                     filter (\<lambda>c. creature_profile c \<noteq> None) inbound).
           fitness_fn self c (ev_sketch self) (ev_config self) = Inr (g c, ev_sketch self)"
  shows "eval_pipeline rgf self inbound =
     (let scored = map g (map (\<lambda>(c, p). c\<lparr>creature_profile := Some p\<rparr>) executed @
                          filter (\<lambda>c. creature_profile c \<noteq> None) inbound);
          (batch, sketch) = record_frequencies rgf scored (ev_sketch self)
      in Inr (batch, self\<lparr>ev_sketch := sketch\<rparr>))"
proof -
  let ?cs = "map (\<lambda>(c, p). c\<lparr>creature_profile := Some p\<rparr>) executed @
      filter (\<lambda>c. creature_profile c \<noteq> None) inbound"
  from assms(2) have "score_all (fitness_fn self) (ev_config self) ?cs (ev_sketch self) =
      Inr (map g ?cs, ev_sketch self)"
    by (intro score_all_snapshot) blast
  with assms(1) show ?thesis
    by (simp add: eval_pipeline_def comp_def Let_def)
qed

theorem eval_pipeline_two_phase_witness:
  "eval_pipeline (\<lambda>c s. (c, cms_insert (creature_tag c) s)) example_evaluator
     [example_creature\<lparr>creature_profile := None\<rparr>, example_creature] =
   Inr (replicate 2 (set_fitness example_creature
          \<lparr>weights = (), scores = conjunction_scores example_ff_env example_profile\<rparr>),
        example_evaluator\<lparr>ev_sketch := cms_insert 0 (cms_insert 0 example_sketch)\<rparr>)"
proof -
  let ?g = "\<lambda>c :: (nat, nat, unit) creature. set_fitness c
      \<lparr>weights = (), scores = conjunction_scores example_ff_env example_profile\<rparr>"
  note ff = example_conjunction
  show ?thesis
    using eval_pipeline_two_phase [of example_evaluator
        "[example_creature\<lparr>creature_profile := None\<rparr>, example_creature]"
        "[(example_creature\<lparr>creature_profile := None\<rparr>, example_profile)]" ?g
        "\<lambda>c s. (c, cms_insert (creature_tag c) s)"] ff
    by (simp add: example_evaluator_def example_creature_def numeral_2_eq_2 set_fitness_def)
qed

subsection \<open>Spawning the evaluator\<close>

lemma parse_registers_eq:
  "parse_registers parse ss =
     (if list_all (\<lambda>s. parse s \<noteq> None) ss then Inr (map (the \<circ> parse) ss)
      else Inl ExpectFailed)"
  by (induction ss) (auto split: option.split)

lemma spawn_output_registers_eq:
  "spawn_output_registers parse config =
     (if \<not> list_all (\<lambda>s. parse s \<noteq> None) (output_registers config) then Inl ExpectFailed
      else case register_pattern config of
        None \<Rightarrow> Inr (map (the \<circ> parse) (output_registers config))
      | Some pat \<Rightarrow>
          (case pattern_registers pat of
             None \<Rightarrow> Inl ExpectFailed
           | Some regs \<Rightarrow> Inr (remdups_adj (map (the \<circ> parse) (output_registers config) @ regs))))"
  by (simp add: spawn_output_registers_def parse_registers_eq)

text \<open>
  \<open>dedup\<close> removes neighbouring duplicates only. When neither list repeats a
  register, the one place where it can remove anything is the junction of the
  two lists.
\<close>

lemma remdups_adj_snoc_distinct:
  "distinct xs \<Longrightarrow> remdups_adj (xs @ [y]) = (if xs \<noteq> [] \<and> last xs = y then xs else xs @ [y])"
proof (cases xs rule: rev_cases)
  case Nil
  then show ?thesis by simp
next
  case (snoc xs' l)
  assume "distinct xs"
  then have "remdups_adj (xs' @ [l]) = xs' @ [l]"
    unfolding snoc by (rule remdups_adj_distinct)
  then show ?thesis
    by (simp add: snoc remdups_adj_append_two)
qed

lemma remdups_adj_append_distinct:
  assumes "distinct xs" and "distinct ys"
  shows "remdups_adj (xs @ ys) =
     (if xs \<noteq> [] \<and> ys \<noteq> [] \<and> last xs = hd ys then xs @ tl ys else xs @ ys)"
proof (cases ys)
  case Nil
  with assms(1) show ?thesis by (simp add: remdups_adj_distinct)
next
  case (Cons y ys')
  from assms(2) have "remdups_adj (y # ys') = y # ys'"
    unfolding Cons by (rule remdups_adj_distinct)
  then have "remdups_adj (xs @ ys) = remdups_adj (xs @ [y]) @ ys'"
    unfolding Cons by (simp only: remdups_adj_append [of xs y ys'] list.sel)
  then show ?thesis
    by (simp add: Cons remdups_adj_snoc_distinct [OF assms(1)])
qed

lemma distinct_remdups_adj_append:
  assumes "distinct xs" and "distinct ys"
  shows "distinct (remdups_adj (xs @ ys)) \<longleftrightarrow>
     (\<forall>x \<in> set xs \<inter> set ys. x = last xs \<and> x = hd ys)"
proof (cases "xs \<noteq> [] \<and> ys \<noteq> [] \<and> last xs = hd ys")
  case True
  then obtain y ys' where ys: "ys = y # ys'" and l: "last xs = y" and ne: "xs \<noteq> []"
    by (cases ys) auto
  from ne l have "y \<in> set xs" using last_in_set by blast
  with assms show ?thesis
    by (auto simp: remdups_adj_append_distinct ys l ne)
next
  case False
  have "set xs \<inter> set ys = {}" if "\<forall>x \<in> set xs \<inter> set ys. x = last xs \<and> x = hd ys"
  proof (rule ccontr)
    assume "set xs \<inter> set ys \<noteq> {}"
    then obtain x where x: "x \<in> set xs" "x \<in> set ys" by blast
    with that have "x = last xs" "x = hd ys" by blast+
    with x False show False by auto
  qed
  with False assms show ?thesis
    by (auto simp: remdups_adj_append_distinct)
qed

text \<open>
  Claim C34. The registers that \<open>spawn\<close> hands to the hatchery, when the output
  registers parse to a list without repetition and the pattern names its
  registers: the list holds exactly the registers of both, and it is free of
  repetitions only if the one register that both name, if any, is the last
  output register and the first register of the pattern. In every other case a
  register is read twice: the list is not sorted before \<open>dedup\<close>.
\<close>

theorem spawn_output_registers_duplicate:
  assumes "parse_registers parse (output_registers config) = Inr outs"
    and "register_pattern config = Some pat" and "pattern_registers pat = Some regs"
    and "distinct outs" and "distinct regs"
  shows "\<exists>rs. spawn_output_registers parse config = Inr rs \<and>
     set rs = set outs \<union> set regs \<and>
     (distinct rs \<longleftrightarrow> (\<forall>x \<in> set outs \<inter> set regs. x = last outs \<and> x = hd regs))"
  using assms(1-3) distinct_remdups_adj_append [OF assms(4,5)]
  by (simp add: spawn_output_registers_def)

theorem spawn_output_registers_duplicate_witness:
  "\<exists>rs. spawn_output_registers example_parse example_pattern_config = Inr rs \<and>
     set rs = {0, 1} \<and> \<not> distinct rs"
proof -
  have "parse_registers example_parse (output_registers example_pattern_config) = Inr [0, 1]"
    by (simp add: example_pattern_config_def example_parse_def)
  moreover have "register_pattern example_pattern_config = Some example_pattern"
    and "pattern_registers example_pattern = Some [0]"
    by (simp_all add: example_pattern_config_def example_pattern_def)
  ultimately show ?thesis
    using spawn_output_registers_duplicate [of example_parse example_pattern_config "[0, 1]"
        example_pattern "[0]"]
    by auto
qed

lemma spawn_output_registers_example:
  "spawn_output_registers example_parse example_pattern_config = Inr [0, 1, 0]"
  by (simp add: spawn_output_registers_eq example_pattern_config_def example_pattern_def
      example_parse_def)

text \<open>
  \<open>spawn\<close> panics when an output register or the register pattern does not
  parse; otherwise the evaluator holds the fitness function it was given.
\<close>

lemma roper_spawn_Inr:
  assumes "roper_spawn senv config ff g = Inr (ev, g')"
  shows "fitness_fn ev = ff" and "ev_config ev = parse_register_pattern senv config"
    and "ev_sketch ev = sketch_new senv (parse_register_pattern senv config)"
  using assms
  by (auto simp: roper_spawn_def Let_def and_then_eq_Inr_iff split_beta)

subsection \<open>Evaluating a collated profile\<close>

lemma visited_collate:
  "visited (collate ps) = (\<Union>p \<in> set ps. \<Union>b \<in> set (block_log p). block_addresses b)"
  by (simp add: visited_def collate_eq)

lemma roper_evaluate_coverage:
  assumes "execute (ev_hatchery self) creature = Some (c, p)"
    and "fitness_fn self = code_coverage_ff env"
    and "checks env \<longrightarrow> profile_fits p"
  shows "roper_evaluate self creature g =
     Inr (set_fitness (c\<lparr>creature_profile := Some p, creature_tag := fst (gen_usize g)\<rparr>)
            \<lparr>weights = fitness_weights (ev_config self),
             scores = coverage_scores env (ev_sketch self) p\<rparr>,
          self\<lparr>ev_sketch := fold cms_insert (set_order env (visited p)) (ev_sketch self)\<rparr>,
          snd (gen_usize g))"
  using assms by (auto simp: roper_evaluate_eq code_coverage_ff_eq)

end
