(* ===== verification/Spec2Isabelle.thy ===== *)
theory Spec2Isabelle
  imports Rust_Prelude Profiler Pack Rng Genome Observation Tournament Channels Evaluation
begin

text \<open>
  A verification development for berbalang, a genetic search for ROP chains
  written in Rust. The sources under \<open>src/\<close> hold the execution profiler of the
  emulator (\<open>src/emulator/profiler.rs\<close>), the tournament example
  (\<open>src/examples/hello_world.rs\<close>), the fitness functions and the evaluator of
  the ROP search (\<open>src/roper/evaluation.rs\<close>), the trait \<open>Pack\<close>
  (\<open>src/emulator/pack.rs\<close>) and the module list of \<open>src/util/mod.rs\<close>.

  \<^bold>\<open>The program.\<close> A run of the emulator fills a \<open>Profiler\<close>: three concurrent
  queues of executed blocks, gadget addresses and memory writes, the final
  registers, a fault and the time taken. After the run the log is frozen into a
  \<open>Profile\<close> of one run, and profiles are merged (\<open>absorb\<close>, \<open>collate\<close>) into
  an aggregate whose fields are vectors indexed by the run. The example
  \<open>hello_world\<close> is the generation loop on strings: an \<open>Epoch\<close> holds a
  population of genomes; \<open>evolve\<close> shuffles it, draws a tournament, has an
  evaluator thread score the combatants, shows them to an observer thread, culls
  the worst, breeds the two best by \<open>crossover\<close> and \<open>mutate\<close> and returns
  everyone to the population; \<open>run\<close> repeats this until a genome equals the
  target. In the ROP search an \<open>Evaluator\<close> has a hatchery execute creatures,
  attaches the profile of the runs to each and scores it with one of three
  fitness functions; the coverage fitness also feeds the addresses that the
  creature visited into a frequency sketch that lives as long as the search.

  \<^bold>\<open>The theories.\<close>

  \<^item> \<open>Rust_Prelude\<close>: what the sources take from the language and its standard
    library. A panic is a value of \<open>panic\<close>; a computation that may panic returns
    \<open>panic + 'a\<close> and one that may also not return \<open>(panic + 'a) option\<close>,
    \<open>None\<close> meaning that it runs forever. \<open>usize\<close> and \<open>u64\<close> are \<open>64 word\<close>.
    Arithmetic takes the build profile as a parameter \<open>oc\<close>: with overflow checks
    \<open>add_oc\<close> and \<open>sub_oc\<close> panic, without them they wrap. Floating point
    values (\<open>fp\<close>) are reals with the infinities and NaN; rounding is not
    modelled, so the theorems on averages and ratios speak of the exact
    quotient. The lengths of vectors and the fitness of a genome are natural
    numbers: a vector never holds \<open>2 ^ 64\<close> elements and an edit distance is
    bounded by the lengths of the strings.
  \<^item> \<open>Profiler\<close>: \<open>Profiler\<close>, \<open>Profile\<close>, \<open>Block\<close> and \<open>MemLogEntry\<close> as records;
    \<open>from_profiler\<close> (the \<open>From\<close> instance), \<open>absorb\<close>, \<open>collate\<close>,
    \<open>avg_emulation_micros\<close>, \<open>addresses_written_to\<close>, \<open>mem_write_ratio\<close>,
    \<open>was_this_written\<close>, \<open>was_this_executed\<close>, \<open>read_registers\<close>. The queues are
    lists in the order of the pushes, and \<open>record_all\<close> applies a sequence of
    callbacks. The lemmas show that \<open>collate\<close> is the fold of \<open>absorb\<close>, that
    \<open>absorb\<close> respects every split of a run sequence, that all fields stay
    aligned by the index of the run (\<open>aligned\<close>, \<open>run_at\<close>), and give each
    analytic function in closed form with its panics; the average emulation
    time lies between the shortest and the longest run, and a fold of
    \<open>absorb\<close> that starts from the derived default profile differs from
    \<open>collate\<close> in the flag \<open>executable\<close>. \<open>get_code\<close>,
    \<open>disassemble\<close>, \<open>disas_paths\<close> and the \<open>Debug\<close> format of a block
    (\<open>fmt_block\<close>) work on the memory image of the loader, a record of
    functions; the lemmas say when they panic. \<open>disas_paths\<close> returns a lazy
    iterator: the model returns its items, each the string or the panic that
    asking for the item gives. The profile is that of a build without the
    feature \<open>full_dump\<close>. \<open>fmt_profiler\<close> is the \<open>Debug\<close>
    format of a profiler and \<open>test_collate\<close> the test of the file.
  \<^item> \<open>Rng\<close>: the thread-local generator as a record of streams, one for each
    type drawn; a theorem for all generators holds for all sequences of draws.
    \<open>shuffle\<close> is the Fisher-Yates loop and permutes its argument.
  \<^item> \<open>Genome\<close>: \<open>Config\<close>, \<open>Genome\<close> and their methods \<open>assert_invariants\<close>,
    \<open>genome_new\<close>, \<open>crossover\<close>, \<open>mutate\<close>, \<open>mate\<close>, \<open>score_mut\<close>. The loop
    of \<open>mutate\<close> draws bytes until one is printable and is a
    \<open>partial_function\<close>: it returns exactly when the supply of bytes holds a
    printable byte (\<open>fair_bytes\<close> says that it always will). \<open>split_at\<close> panics
    off a character boundary; genes stay ASCII (\<open>genome_ok\<close>), so it does not.
  \<^item> \<open>Observation\<close>: the window of the observer thread, a ring buffer, with
    \<open>window_insert\<close>, \<open>report\<close>, \<open>window_new\<close>; the observer is \<open>Running\<close> with
    its window or \<open>Dead\<close>. The lemmas show that the index stays inside the
    frame (\<open>window_ok\<close>) and that the buffer refines a sliding window
    (\<open>recent\<close>).
  \<^item> \<open>Tournament\<close>: the evaluator thread (\<open>evaluate\<close>), \<open>Epoch\<close> with
    \<open>epoch_new\<close> and \<open>update_best\<close>, one generation (\<open>evolve\<close> with its loops
    \<open>select_combatants\<close>, \<open>cull\<close>, \<open>requeue\<close>) and \<open>run\<close>. What \<open>evolve\<close>
    touches besides the epoch is the record \<open>env\<close>. The lemmas give a
    generation in closed form, say exactly when it completes and when it panics,
    that \<open>assert_invariants\<close> is the condition on the configuration under
    which it completes, how it changes the population and the champion, and
    show that \<open>run\<close> returns the target if it returns, and never panics for
    a valid configuration in a build without overflow checks. The relation
    \<open>generations\<close> is the step relation of the loop: the invariant \<open>epoch_inv\<close>
    holds for every epoch that it reaches, and \<open>run\<close> returns exactly when it
    reaches a solved epoch, at the first one.
  \<^item> \<open>Channels\<close>: the observer and the evaluator as threads behind queues,
    with the step relations \<open>obs_step\<close> and \<open>eval_step\<close> that interleave the
    steps of a thread with the sends and receives of the generation loop. The
    lemmas show by rule induction that the calls \<open>observe\<close> and \<open>evaluate\<close>
    of the other theories are what the threads compute, for every schedule.
  \<^item> \<open>Pack\<close>: the implementation of the trait \<open>Pack\<close> for byte vectors,
    \<open>pack\<close> and \<open>as_code_addrs\<close>; the second is not implemented and panics.
  \<^item> \<open>Evaluation\<close>: \<open>src/roper/evaluation.rs\<close>. The fitness functions
    \<open>code_coverage_ff\<close> (with its loops \<open>visit_paths\<close>, \<open>visit_path\<close>,
    \<open>freq_loop\<close>), \<open>register_pattern_ff\<close> and \<open>register_conjunction_ff\<close>, and
    the evaluator: \<open>roper_evaluate\<close>, \<open>eval_pipeline\<close> (with \<open>score_all\<close> and
    \<open>record_frequencies\<close>) and \<open>roper_spawn\<close> (with \<open>spawn_output_registers\<close>).
    A fitness function returns the creature and the sketch, or a panic.
    \<open>Creature\<close>, \<open>Weighted\<close>, \<open>Config\<close>, \<open>RegisterPattern\<close> and \<open>Hatchery\<close> are
    not under \<open>src/\<close>: they are records of the fields and functions that the
    file uses. The frequency sketch is a count-min sketch (\<open>cms_insert\<close>,
    \<open>cms_estimate\<close>) over hash functions given as a parameter. The order in
    which a hash set or a hash map yields its elements is a function of the
    environment \<open>ff_env\<close>; \<open>order_ok\<close> and \<open>keys_ok\<close> say that it yields each
    element once. The environment also holds \<open>register_words\<close>, the table of
    word vectors of a register state, of which \<open>register_conjunction_ff\<close>
    reads the first words; an empty vector makes it panic. \<open>register_pattern_ff\<close>
    sums a table of fault counts (\<open>crash_count\<close>); \<open>error_table\<close> builds that
    table from the vector of faults that \<open>profiler.rs\<close> keeps. The lemmas show
    that the sketch refines a multiset of addresses (\<open>cms_rep\<close>), never
    undercounts and depends on the multiset inserted only; they give the
    three fitness functions in closed form (\<open>coverage_scores\<close>,
    \<open>pattern_scores\<close>, \<open>conjunction_scores\<close> over the sets \<open>visited\<close> and
    \<open>written\<close>) with their panics and the bounds of the scores; they show
    that \<open>eval_pipeline\<close> scores a batch against one state of the sketch when
    the fitness function leaves the sketch alone, and that it does not with
    \<open>code_coverage_ff\<close>: a creature scored after another one in a batch gains
    at least the share of its addresses that the other one visited. The score
    \<open>code_frequency\<close> also depends on the iteration order, between two bounds
    that do not; \<open>spawn\<close> hands the hatchery a register twice unless the
    lists of the configuration and of the pattern overlap at their junction
    only.
  \<^item> This theory: the properties that span components, the tournament with
    the observer and the evaluator of the ROP search with the profiler.

  \<^bold>\<open>Threads and channels.\<close> The evaluator and the observer are threads behind
  channels. \<open>evaluate\<close> sends a genome and waits for the answer, so the round
  trip is a function call that panics when the worker is gone
  (\<open>worker_alive\<close>). The source has two \<open>expect\<close>s, on the send and on the
  receive. The worker ends only when a channel is closed, which the caller
  does not do while it waits, so a worker that took the genome answers it:
  the one panic of the model is the failed send, and \<open>eval_step\<close> has the
  receive as a step of its own. The observer handles the genomes in the order in which
  they are sent, and the sender never waits for it; \<open>Observation\<close> and
  \<open>Tournament\<close> apply each insertion at the send. An observer thread that
  panics drops its receiver, and later sends fail: this is the state \<open>Dead\<close>.
  \<open>Channels\<close> justifies both simplifications: it keeps the queues and lets
  the threads step on their own, and proves that a drained observer and an
  answered caller are in the state that the calls give. One difference remains
  and is not observable by the generation loop, which drops the result of
  \<open>observe\<close>: a send to an observer that is about to panic on an earlier
  genome succeeds in \<open>Channels\<close> and fails in \<open>Observation\<close>.

  \<^bold>\<open>Hash tables.\<close> The sources iterate over a \<open>HashSet\<close> of addresses and
  over the values of a \<open>HashMap\<close> of registers, in an order that the hash
  function decides. The model takes the order as a parameter; a theorem that
  assumes \<open>order_ok\<close> or \<open>keys_ok\<close> holds for every order that a hash
  table can produce. The sketch and the register conjunction are proved
  independent of the order; the score \<open>code_frequency\<close> is not.

  \<^bold>\<open>Loops.\<close> Loops over a vector or a range are structural recursions. The
  loop of \<open>mutate\<close> and the loop of \<open>run\<close> may not end and are
  \<open>partial_function\<close>s in the option monad; no fuel is used. That
  \<open>mutate\<close> returns is proved from \<open>fair_bytes\<close>; \<open>run\<close> returns exactly when
  the draws lead to a generation whose champion has fitness 0, which is shown
  for the examples.

  \<^bold>\<open>Bounds.\<close> No fuel and no bound on the size of a vector is used. The
  examples are small so that they evaluate by rewriting: a sketch of two rows
  and two columns, a block of three bytes, a population of five strings.

  \<^bold>\<open>Not modelled.\<close> The debug lines of the log; the time that a thread
  takes; the rounding of floating point numbers; the formats of register maps
  and faults, which are parameters of \<open>fmt_profiler\<close>; the trait \<open>HasProfile\<close>,
  which has no implementation. \<open>src/util/mod.rs\<close> declares modules and holds no code. The
  hatchery, the loader, the register patterns, the creature and the
  configuration are not under \<open>src/\<close>: the model has of them what
  \<open>evaluation.rs\<close> and \<open>profiler.rs\<close> call, as parameters, and proves nothing
  about their implementations. \<open>evaluation.rs\<close> is written for a profile
  that differs from that of \<open>profiler.rs\<close>: it calls \<open>bb_path_iter\<close> and
  \<open>mem_ratio_written\<close>, for which the model uses \<open>basic_block_path_iterator\<close>
  and \<open>mem_write_ratio\<close>, and it reads \<open>cpu_errors\<close> as a table of counts,
  which the model builds from the vector of faults (\<open>error_table\<close>). The
  samplers of the crate \<open>rand\<close> are modelled from their contract:
  \<open>sample_alphanumeric\<close> by one draw and \<open>shuffle\<close> by the Fisher-Yates loop
  with one draw for each position; the theorems use that a sample is
  alphanumeric and that a shuffle permutes, nothing of the distribution.
\<close>

section \<open>The observer sees the tournament\<close>

text \<open>
  Claim C9. A generation that completes shows the observer the combatants in the
  order in which they were scored: if the observer is running on a well-formed
  window and is still running afterwards, its window holds the scored
  combatants, the newest first, as many as the window has slots, followed by
  what is left of its earlier content. In a build without overflow checks the
  observer is always still running.
\<close>

theorem evolve_observed:
  assumes "evolve self e = Some (Inr (self', e'))" and "observer_thread e = Running w"
    and "window_ok w"
  shows "(\<not> overflow_checks e \<longrightarrow> observer_thread e' \<noteq> Dead) \<and>
         (\<forall>w'. observer_thread e' = Running w' \<longrightarrow>
            window_ok w' \<and>
            recent w' = take (length (frame w)) (map Some (rev (drawn self e)) @ recent w))"
proof -
  from assms(1) have pre: "evolve_pre self e" by (rule evolve_pre_if_Inr)
  from pre assms(1) have obs: "observer_thread e' =
      fst (observe_all (overflow_checks e) (Running w) (drawn self e))"
    unfolding assms(2) [symmetric] by (rule evolve_Inr)
  have "observer_thread e' \<noteq> Dead" if "\<not> overflow_checks e"
    using observe_all_unchecked [OF assms(3), of "drawn self e"] obs that by auto
  moreover have "window_ok w' \<and>
      recent w' = take (length (frame w)) (map Some (rev (drawn self e)) @ recent w)"
    if "observer_thread e' = Running w'" for w'
  proof -
    from that obs obtain logs where
      "window_run (overflow_checks e) w (drawn self e) = Inr (w', logs)"
      using observe_all_Running [of "overflow_checks e" w "drawn self e" w'] by auto
    from window_run_ok [OF assms(3) this] show ?thesis by simp
  qed
  ultimately show ?thesis by blast
qed

theorem evolve_observed_witness:
  "recent \<lparr>frame = [Some \<lparr>genes = ''ABCDE'', fitness = Some 5\<rparr>,
                   Some \<lparr>genes = ''HELLA'', fitness = Some 1\<rparr>,
                   Some \<lparr>genes = ''JELLY'', fitness = Some 2\<rparr>],
          w_i = 2, window_size = 3\<rparr> =
     take (length (frame example_window))
       (map Some (rev (drawn example_epoch example_env)) @ recent example_window)"
  using evolve_observed [OF evolve_example, of example_window]
  by (simp add: example_env_def example_env'_def example_window_ok)

section \<open>The evaluator scores a collated profile\<close>

text \<open>
  Claim C10. \<open>evaluate\<close> with the coverage fitness on a profile collated from the
  profilers of the runs: it returns the creature with that profile, tagged with
  the next word of the generator; the score \<open>gadgets_executed\<close> is the number
  of runs; if the sketch of the evaluator represented \<open>M\<close>, it now represents
  \<open>M\<close> plus the addresses of the blocks that the profilers logged, each once.
\<close>

theorem evaluate_collated:
  assumes "execute (ev_hatchery self) creature = Some (c, collate ps)"
    and "fitness_fn self = code_coverage_ff env"
    and "checks env \<longrightarrow> profile_fits (collate ps)"
    and "cms_rep (ev_sketch self) M"
    and "order_ok env (visited (collate ps))"
  shows "\<exists>scored self' f. roper_evaluate self creature g = Inr (scored, self', snd (gen_usize g)) \<and>
     creature_profile scored = Some (collate ps) \<and> creature_tag scored = fst (gen_usize g) \<and>
     creature_fitness scored = Some f \<and>
     scores f ''gadgets_executed'' = Some (fp_of_nat (length ps)) \<and>
     cms_rep (ev_sketch self')
       (M + mset_set (\<Union>p \<in> set ps. \<Union>b \<in> set (block_log p). block_addresses b))"
proof -
  from fold_cms_insert_rep [OF assms(4), of "set_order env (visited (collate ps))"] assms(5)
  have "cms_rep (fold cms_insert (set_order env (visited (collate ps))) (ev_sketch self))
      (M + mset_set (\<Union>p \<in> set ps. \<Union>b \<in> set (block_log p). block_addresses b))"
    by (simp add: order_ok_def visited_collate)
  moreover have "coverage_scores env (ev_sketch self) (collate ps) ''gadgets_executed'' =
      Some (fp_of_nat (length ps))"
    by (simp add: gadgets_score_runs)
  ultimately show ?thesis
    by (simp add: roper_evaluate_coverage [OF assms(1-3)] set_fitness_def)
qed

theorem evaluate_collated_witness:
  "\<exists>scored self' f.
     roper_evaluate (example_evaluator\<lparr>fitness_fn := code_coverage_ff example_ff_env\<rparr>)
       example_creature example_rng = Inr (scored, self', snd (gen_usize example_rng)) \<and>
     creature_profile scored = Some example_profile \<and>
     creature_tag scored = fst (gen_usize example_rng) \<and>
     creature_fitness scored = Some f \<and>
     scores f ''gadgets_executed'' = Some (fp_of_nat 1) \<and>
     cms_rep (ev_sketch self') (mset_set {0x1000..<0x1003})"
proof -
  let ?ps = "[profiler_default\<lparr>block_log := [\<lparr>entry = 0x1000, block_size = 3\<rparr>],
      profiler.registers := [0 \<mapsto> 0xff00, 1 \<mapsto> 0x0ff0]\<rparr>] :: (nat, nat) profiler list"
  have p: "example_profile = collate ?ps" by (simp add: example_profile_def)
  have "cms_rep (ev_sketch (example_evaluator\<lparr>fitness_fn := code_coverage_ff example_ff_env\<rparr>)) {#}"
    by (simp add: example_evaluator_def example_sketch_def cms_new_rep)
  moreover have "order_ok example_ff_env (visited (collate ?ps))"
    using order_ok_example by (simp add: p)
  moreover have "checks example_ff_env \<longrightarrow> profile_fits (collate ?ps)"
    using example_fits by (simp add: p)
  ultimately show ?thesis
    using evaluate_collated [of "example_evaluator\<lparr>fitness_fn := code_coverage_ff example_ff_env\<rparr>"
        example_creature example_creature ?ps example_ff_env "{#}" example_rng]
    by (simp add: example_evaluator_def p block_addresses_def)
qed

end
